theory Spec2Isabelle
  imports Complex_Main
begin

section \<open>Numbers and their rendering\<close>

text \<open>
  The two formatting helpers of \<^verbatim>\<open>cli_downloader.py\<close> take a Python number (an
  \<^verbatim>\<open>int\<close> or a \<^verbatim>\<open>float\<close>). Numbers are embedded as rationals: every
  value the helpers compute from an integer below \<open>2^53\<close> (a division by the power of
  two \<open>1024.0\<close>, a comparison) is exact in binary floating point, so the rational model
  agrees with the program on all byte counts and durations that occur in practice.
\<close>

type_synonym pynum = rat

text \<open>Decimal rendering of an integer, as \<^verbatim>\<open>str(n)\<close> and \<^verbatim>\<open>f"{n}"\<close> do.\<close>

definition digit_char :: "nat \<Rightarrow> char" where
  "digit_char d = ''0123456789'' ! (d mod 10)"

function show_nat :: "nat \<Rightarrow> string" where
  "show_nat n = (if n < 10 then [digit_char n] else show_nat (n div 10) @ [digit_char (n mod 10)])"
  by pat_completeness auto
termination
  by (relation "measure id") auto

declare show_nat.simps [simp del]

definition show_int :: "int \<Rightarrow> string" where
  "show_int i = (if i < 0 then ''-'' @ show_nat (nat (- i)) else show_nat (nat i))"

text \<open>Python's \<^verbatim>\<open>//\<close>, \<^verbatim>\<open>%\<close> and \<^verbatim>\<open>int()\<close> on numbers, for a positive divisor.\<close>

definition py_floordiv :: "pynum \<Rightarrow> pynum \<Rightarrow> pynum" where
  "py_floordiv a b = of_int \<lfloor>a / b\<rfloor>"

definition py_mod :: "pynum \<Rightarrow> pynum \<Rightarrow> pynum" where
  "py_mod a b = a - b * of_int \<lfloor>a / b\<rfloor>"

definition py_int :: "pynum \<Rightarrow> int" where
  "py_int x = (if 0 \<le> x then \<lfloor>x\<rfloor> else \<lceil>x\<rceil>)"

text \<open>
  \<^verbatim>\<open>f"{x:.2f}"\<close>: the value rounded to hundredths, ties to the even neighbour, a
  minus sign for a negative value, at least one digit before the point and exactly two
  after it.
\<close>

definition round_half_even :: "pynum \<Rightarrow> int" where
  "round_half_even x =
     (let f = \<lfloor>x\<rfloor>; d = x - of_int f
      in if d < 1 / 2 then f
         else if 1 / 2 < d then f + 1
         else if even f then f else f + 1)"

definition format_2f :: "pynum \<Rightarrow> string" where
  "format_2f x =
     (let c = nat (round_half_even (\<bar>x\<bar> * 100))
      in (if x < 0 then ''-'' else '''') @ show_nat (c div 100) @ ''.''
         @ [digit_char ((c mod 100) div 10), digit_char (c mod 10)])"

section \<open>The formatting helpers of the command-line front end\<close>

text \<open>
  \<^verbatim>\<open>format_bytes\<close>: the \<^verbatim>\<open>for\<close> loop over the five unit names, with the
  fall-through \<^verbatim>\<open>return\<close> after it.
\<close>

fun format_bytes_loop :: "string list \<Rightarrow> pynum \<Rightarrow> string" where
  "format_bytes_loop [] bytes_val = format_2f bytes_val @ '' PB''"
| "format_bytes_loop (unit # units) bytes_val =
     (if bytes_val < 1024 then format_2f bytes_val @ '' '' @ unit
      else format_bytes_loop units (bytes_val / 1024))"

definition format_bytes :: "pynum \<Rightarrow> string" where
  "format_bytes bytes_val = format_bytes_loop [''B'', ''KB'', ''MB'', ''GB'', ''TB''] bytes_val"

definition format_time :: "pynum \<Rightarrow> string" where
  "format_time seconds =
     (if seconds = 0 then ''N/A''
      else
        let hours = py_int (py_floordiv seconds 3600);
            minutes = py_int (py_floordiv (py_mod seconds 3600) 60);
            secs = py_int (py_mod seconds 60)
        in if hours > 0 then show_int hours @ ''h '' @ show_int minutes @ ''m '' @ show_int secs @ ''s''
           else if minutes > 0 then show_int minutes @ ''m '' @ show_int secs @ ''s''
           else show_int secs @ ''s'')"

section \<open>The transfer engine as seen by the orchestrator\<close>

text \<open>
  libtorrent is an external collaborator. What the program observes of it is the answer
  to each call it makes. The engine is therefore a pair of oracles indexed by the number
  of blocking calls (\<^verbatim>\<open>handle.status()\<close>, \<^verbatim>\<open>handle.is_seed()\<close>,
  \<^verbatim>\<open>time.sleep(1)\<close>) made so far: the status the engine would report at that call,
  and whether that call is cut short by a user interrupt or by an engine fault. Parsing a
  magnet link either yields the info-hash that identifies the torrent or is rejected.
  A third oracle gives the time each call takes, in seconds: \<^verbatim>\<open>time.time()\<close> reads
  a clock that these durations and the one-second sleeps advance. Console output, colours,
  the session settings and the destination directory are left out: no property below
  observes them.
\<close>

datatype exn = TimeoutError | KeyboardInterrupt | InvalidMagnet | EngineError

datatype signal = Interrupt | Fault

fun exn_of :: "signal \<Rightarrow> exn" where
  "exn_of Interrupt = KeyboardInterrupt"
| "exn_of Fault = EngineError"

text \<open>
  \<^verbatim>\<open>KeyboardInterrupt\<close> derives from \<^verbatim>\<open>BaseException\<close>; the other three are
  caught by \<^verbatim>\<open>except Exception\<close>.
\<close>

record torrent_status =
  has_metadata :: bool
  progress :: pynum
  download_rate :: int
  upload_rate :: int
  num_peers :: int
  num_seeds :: int
  total_done :: int
  total_wanted :: int
  state :: string
  is_seed :: bool

record file_entry =
  file_path :: string
  file_size :: int

record torrent_info =
  name :: string
  files :: "file_entry list"
  total_size :: int

record engine =
  parse_magnet_uri :: "string \<Rightarrow> string option"
  status_at :: "nat \<Rightarrow> torrent_status"
  signal_at :: "nat \<Rightarrow> signal option"
  duration_at :: "nat \<Rightarrow> pynum"
  get_torrent_info :: torrent_info

text \<open>The dictionaries handed to the two callbacks and returned to the caller.\<close>

record progress_info =
  info_progress :: pynum
  info_download_rate :: int
  info_upload_rate :: int
  info_num_peers :: int
  info_num_seeds :: int
  info_total_done :: int
  info_total_wanted :: int
  info_state :: string

record metadata =
  md_name :: string
  md_num_files :: nat
  md_total_size :: int
  md_info_hash :: string

record download_result =
  res_name :: string
  res_files :: "file_entry list"

record torrent_summary =
  sum_name :: string
  sum_files :: "file_entry list"
  sum_total_size :: int
  sum_info_hash :: string

text \<open>
  Everything the program does to the outside world is recorded, in order, as an event.
\<close>

datatype event =
    SessionCreated
  | TorrentAdded string
  | TorrentRemoved string
  | TorrentPaused string
  | SessionPaused
  | OnMetadata metadata
  | OnProgress progress_info
  | PbarUpdate pynum
  | PbarPostfix string
  | PbarClose

record world =
  calls :: nat
  clock :: pynum
  torrents :: "string list"
  events :: "event list"

type_synonym 'a outcome = "(exn + 'a) \<times> world"

definition emit :: "event list \<Rightarrow> world \<Rightarrow> world" where
  "emit evs w = w\<lparr>events := events w @ evs\<rparr>"

subsection \<open>Engine and clock primitives\<close>

text \<open>
  Every call is counted and takes the time the engine's oracle gives for it (a negative
  entry counts as no time).
\<close>

definition after_call :: "engine \<Rightarrow> world \<Rightarrow> world" where
  "after_call eng w =
     w\<lparr>calls := calls w + 1, clock := clock w + max 0 (duration_at eng (calls w))\<rparr>"

definition handle_status :: "engine \<Rightarrow> world \<Rightarrow> torrent_status outcome" where
  "handle_status eng w =
     (case signal_at eng (calls w) of
        Some s \<Rightarrow> (Inl (exn_of s), after_call eng w)
      | None \<Rightarrow> (Inr (status_at eng (calls w)), after_call eng w))"

definition handle_is_seed :: "engine \<Rightarrow> world \<Rightarrow> bool outcome" where
  "handle_is_seed eng w =
     (case signal_at eng (calls w) of
        Some s \<Rightarrow> (Inl (exn_of s), after_call eng w)
      | None \<Rightarrow> (Inr (is_seed (status_at eng (calls w))), after_call eng w))"

text \<open>
  \<^verbatim>\<open>time.sleep(1)\<close>: unless the sleep is cut short, one second passes on top of the
  time the call itself takes.
\<close>

definition time_sleep :: "engine \<Rightarrow> world \<Rightarrow> unit outcome" where
  "time_sleep eng w =
     (case signal_at eng (calls w) of
        Some s \<Rightarrow> (Inl (exn_of s), after_call eng w)
      | None \<Rightarrow> (Inr (), (after_call eng w)\<lparr>clock := clock (after_call eng w) + 1\<rparr>))"

text \<open>
  A session holds one torrent per info-hash; adding one that is already there hands back
  the existing handle.
\<close>

definition add_torrent :: "string \<Rightarrow> world \<Rightarrow> world" where
  "add_torrent h w =
     emit [TorrentAdded h]
       (w\<lparr>torrents := (if h \<in> set (torrents w) then torrents w else torrents w @ [h])\<rparr>)"

definition remove_torrent :: "string \<Rightarrow> world \<Rightarrow> world" where
  "remove_torrent h w = emit [TorrentRemoved h] (w\<lparr>torrents := removeAll h (torrents w)\<rparr>)"

text \<open>\<^verbatim>\<open>lt.session()\<close>: a new session, which holds no torrent yet.\<close>

definition new_session :: "world \<Rightarrow> world" where
  "new_session w = emit [SessionCreated] (w\<lparr>torrents := []\<rparr>)"

text \<open>The loop \<^verbatim>\<open>for i in range(torrent_info.num_files())\<close> that lists the files.\<close>

definition collect_files :: "torrent_info \<Rightarrow> file_entry list" where
  "collect_files ti = map (\<lambda>i. files ti ! i) [0..<length (files ti)]"

section \<open>\<^verbatim>\<open>downloader.py\<close>: the class \<^verbatim>\<open>TorrentDownloader\<close>\<close>

text \<open>\<^verbatim>\<open>__init__\<close>: the session is created (and configured) when the object is built.\<close>

definition init_downloader :: "world \<Rightarrow> world" where
  "init_downloader w = new_session w"

text \<open>
  The metadata wait of \<^verbatim>\<open>download\<close>: the loop condition polls the status, the body
  checks the 60 second bound, polls the status again (for the peer count it prints) and
  sleeps one second.
\<close>

function download_wait :: "engine \<Rightarrow> pynum \<Rightarrow> world \<Rightarrow> unit outcome" where
  "download_wait eng start_time w =
     (case handle_status eng w of
        (Inl e, w1) \<Rightarrow> (Inl e, w1)
      | (Inr st, w1) \<Rightarrow>
          if has_metadata st then (Inr (), w1)
          else if clock w1 - start_time > 60 then (Inl TimeoutError, w1)
          else (case handle_status eng w1 of
                  (Inl e, w2) \<Rightarrow> (Inl e, w2)
                | (Inr status, w2) \<Rightarrow>
                    (case time_sleep eng w2 of
                       (Inl e, w3) \<Rightarrow> (Inl e, w3)
                     | (Inr u, w3) \<Rightarrow> download_wait eng start_time w3)))"
  by pat_completeness auto
termination
proof -
  have fewer: "nat \<lfloor>b\<rfloor> < nat \<lfloor>a\<rfloor>" if "1 \<le> a" and "b \<le> a - 1" for a b :: pynum
  proof -
    have "\<lfloor>b\<rfloor> \<le> \<lfloor>a - 1\<rfloor>" using that(2) by (rule floor_mono)
    moreover have "1 \<le> \<lfloor>a\<rfloor>" using that(1) by (simp add: le_floor_iff)
    ultimately show ?thesis by simp
  qed
  show ?thesis
    apply (relation "measure (\<lambda>(eng, start_time, w). nat \<lfloor>start_time + 61 - clock w\<rfloor>)")
     apply simp
    apply (simp only: in_measure prod.case)
    apply (rule fewer)
     apply (auto simp: handle_status_def time_sleep_def after_call_def split: option.splits)
    done
qed

declare download_wait.simps [simp del]

text \<open>The dictionary built for \<^verbatim>\<open>on_progress\<close> in each cycle of the download loop.\<close>

definition progress_info_of :: "torrent_status \<Rightarrow> progress_info" where
  "progress_info_of status =
     \<lparr>info_progress = progress status * 100,
      info_download_rate = download_rate status,
      info_upload_rate = upload_rate status,
      info_num_peers = num_peers status,
      info_num_seeds = num_seeds status,
      info_total_done = total_done status,
      info_total_wanted = total_wanted status,
      info_state = state status\<rparr>"

text \<open>
  The download loop of \<^verbatim>\<open>download\<close>. Nothing bounds it, so it carries fuel: the
  value \<open>None\<close> means that the loop is still running after that many cycles. The flag
  \<open>on_progress\<close> says whether a callback was supplied.
\<close>

fun download_loop :: "nat \<Rightarrow> engine \<Rightarrow> bool \<Rightarrow> world \<Rightarrow> unit outcome option" where
  "download_loop 0 eng on_progress w = None"
| "download_loop (Suc fuel) eng on_progress w =
     (case handle_is_seed eng w of
        (Inl e, w1) \<Rightarrow> Some (Inl e, w1)
      | (Inr seed, w1) \<Rightarrow>
          if seed then Some (Inr (), w1)
          else (case handle_status eng w1 of
                  (Inl e, w2) \<Rightarrow> Some (Inl e, w2)
                | (Inr status, w2) \<Rightarrow>
                    (case time_sleep eng
                            (if on_progress then emit [OnProgress (progress_info_of status)] w2
                             else w2) of
                       (Inl e, w3) \<Rightarrow> Some (Inl e, w3)
                     | (Inr u, w3) \<Rightarrow> download_loop fuel eng on_progress w3)))"

definition metadata_of :: "torrent_info \<Rightarrow> string \<Rightarrow> metadata" where
  "metadata_of ti h =
     \<lparr>md_name = name ti, md_num_files = length (files ti),
      md_total_size = total_size ti, md_info_hash = h\<rparr>"

definition download ::
  "nat \<Rightarrow> engine \<Rightarrow> string \<Rightarrow> bool \<Rightarrow> bool \<Rightarrow> world \<Rightarrow> download_result outcome option" where
  "download fuel eng magnet_link on_progress on_metadata w =
     (case parse_magnet_uri eng magnet_link of
        None \<Rightarrow> Some (Inl InvalidMagnet, w)
      | Some h \<Rightarrow>
          (case download_wait eng (clock (add_torrent h w)) (add_torrent h w) of
             (Inl e, w2) \<Rightarrow> Some (Inl e, w2)
           | (Inr u, w2) \<Rightarrow>
               (case download_loop fuel eng on_progress
                       (if on_metadata
                        then emit [OnMetadata (metadata_of (get_torrent_info eng) h)] w2
                        else w2) of
                  None \<Rightarrow> None
                | Some (Inl e, w4) \<Rightarrow> Some (Inl e, w4)
                | Some (Inr u', w4) \<Rightarrow>
                    Some (Inr \<lparr>res_name = name (get_torrent_info eng),
                               res_files = collect_files (get_torrent_info eng)\<rparr>, w4))))"

text \<open>The metadata wait of \<^verbatim>\<open>get_info\<close>: one status poll per cycle.\<close>

function get_info_wait :: "engine \<Rightarrow> pynum \<Rightarrow> world \<Rightarrow> unit outcome" where
  "get_info_wait eng start_time w =
     (case handle_status eng w of
        (Inl e, w1) \<Rightarrow> (Inl e, w1)
      | (Inr st, w1) \<Rightarrow>
          if has_metadata st then (Inr (), w1)
          else if clock w1 - start_time > 60 then (Inl TimeoutError, w1)
          else (case time_sleep eng w1 of
                  (Inl e, w2) \<Rightarrow> (Inl e, w2)
                | (Inr u, w2) \<Rightarrow> get_info_wait eng start_time w2))"
  by pat_completeness auto
termination
proof -
  have fewer: "nat \<lfloor>b\<rfloor> < nat \<lfloor>a\<rfloor>" if "1 \<le> a" and "b \<le> a - 1" for a b :: pynum
  proof -
    have "\<lfloor>b\<rfloor> \<le> \<lfloor>a - 1\<rfloor>" using that(2) by (rule floor_mono)
    moreover have "1 \<le> \<lfloor>a\<rfloor>" using that(1) by (simp add: le_floor_iff)
    ultimately show ?thesis by simp
  qed
  show ?thesis
    apply (relation "measure (\<lambda>(eng, start_time, w). nat \<lfloor>start_time + 61 - clock w\<rfloor>)")
     apply simp
    apply (simp only: in_measure prod.case)
    apply (rule fewer)
     apply (auto simp: handle_status_def time_sleep_def after_call_def split: option.splits)
    done
qed

declare get_info_wait.simps [simp del]

definition get_info :: "engine \<Rightarrow> string \<Rightarrow> world \<Rightarrow> torrent_summary outcome" where
  "get_info eng magnet_link w =
     (case parse_magnet_uri eng magnet_link of
        None \<Rightarrow> (Inl InvalidMagnet, w)
      | Some h \<Rightarrow>
          (case get_info_wait eng (clock (add_torrent h w)) (add_torrent h w) of
             (Inl e, w2) \<Rightarrow> (Inl e, w2)
           | (Inr u, w2) \<Rightarrow>
               (Inr \<lparr>sum_name = name (get_torrent_info eng),
                     sum_files = collect_files (get_torrent_info eng),
                     sum_total_size = total_size (get_torrent_info eng),
                     sum_info_hash = h\<rparr>,
                remove_torrent h w2)))"

text \<open>\<^verbatim>\<open>shutdown\<close>: pause every torrent of the session, pause the session, sleep.\<close>

definition shutdown :: "engine \<Rightarrow> world \<Rightarrow> unit outcome" where
  "shutdown eng w = time_sleep eng (emit (map TorrentPaused (torrents w) @ [SessionPaused]) w)"

text \<open>
  The script at the end of \<^verbatim>\<open>downloader.py\<close>. It ends with an exit code, or with
  an exception nobody caught.
\<close>

datatype ending = Exit int | Uncaught exn

definition downloader_main :: "nat \<Rightarrow> engine \<Rightarrow> string list \<Rightarrow> world \<Rightarrow> (ending \<times> world) option" where
  "downloader_main fuel eng argv w =
     (if length argv < 2 then Some (Exit 1, w)
      else
        (case download fuel eng (argv ! 1) True True (init_downloader w) of
           None \<Rightarrow> None
         | Some (Inr result, w1) \<Rightarrow> Some (Exit 0, w1)
         | Some (Inl e, w1) \<Rightarrow>
             if e = KeyboardInterrupt
             then (case shutdown eng w1 of
                     (Inl e', w2) \<Rightarrow> Some (Uncaught e', w2)
                   | (Inr u, w2) \<Rightarrow> Some (Exit 0, w2))
             else (case shutdown eng w1 of
                     (Inl e', w2) \<Rightarrow> Some (Uncaught e', w2)
                   | (Inr u, w2) \<Rightarrow> Some (Exit 1, w2))))"

section \<open>\<^verbatim>\<open>cli_downloader.py\<close>: the command-line front end\<close>

text \<open>
  The metadata wait of \<^verbatim>\<open>download_torrent\<close>. On the 60 second bound it prints and
  returns from the function: the result \<open>False\<close>. The result \<open>True\<close> is the normal
  exit of the loop.
\<close>

function cli_wait :: "engine \<Rightarrow> pynum \<Rightarrow> int \<Rightarrow> world \<Rightarrow> bool outcome" where
  "cli_wait eng start_time last_peer_count w =
     (case handle_status eng w of
        (Inl e, w1) \<Rightarrow> (Inl e, w1)
      | (Inr st, w1) \<Rightarrow>
          if has_metadata st then (Inr True, w1)
          else if clock w1 - start_time > 60 then (Inr False, w1)
          else (case handle_status eng w1 of
                  (Inl e, w2) \<Rightarrow> (Inl e, w2)
                | (Inr status, w2) \<Rightarrow>
                    (case time_sleep eng w2 of
                       (Inl e, w3) \<Rightarrow> (Inl e, w3)
                     | (Inr u, w3) \<Rightarrow>
                         cli_wait eng start_time
                           (if num_peers status \<noteq> last_peer_count \<and> num_peers status > 0
                            then num_peers status else last_peer_count) w3)))"
  by pat_completeness auto
termination
proof -
  have fewer: "nat \<lfloor>b\<rfloor> < nat \<lfloor>a\<rfloor>" if "1 \<le> a" and "b \<le> a - 1" for a b :: pynum
  proof -
    have "\<lfloor>b\<rfloor> \<le> \<lfloor>a - 1\<rfloor>" using that(2) by (rule floor_mono)
    moreover have "1 \<le> \<lfloor>a\<rfloor>" using that(1) by (simp add: le_floor_iff)
    ultimately show ?thesis by simp
  qed
  show ?thesis
    apply (relation "measure (\<lambda>(eng, start_time, last_peer_count, w). nat \<lfloor>start_time + 61 - clock w\<rfloor>)")
     apply simp
    apply (simp only: in_measure prod.case)
    apply (rule fewer)
     apply (auto simp: handle_status_def time_sleep_def after_call_def split: option.splits)
    done
qed

declare cli_wait.simps [simp del]

text \<open>
  The text put behind the progress bar in each cycle: the two formatted rates, the peer
  count and the seed count. The two arrow glyphs of the source are written as the words
  \<^verbatim>\<open>down\<close> and \<^verbatim>\<open>up\<close>.
\<close>

definition postfix_of :: "torrent_status \<Rightarrow> string" where
  "postfix_of status =
     ''down '' @ format_bytes (of_int (download_rate status)) @ ''/s''
     @ '' up '' @ format_bytes (of_int (upload_rate status)) @ ''/s''
     @ '' Peers:'' @ show_int (num_peers status)
     @ '' Seeds:'' @ show_int (num_seeds status)"

text \<open>
  The download loop inside the \<^verbatim>\<open>try\<close>. It carries \<^verbatim>\<open>last_progress\<close> and the
  bar's counter \<^verbatim>\<open>pbar.n\<close>, and returns the counter when the loop ends.
\<close>

fun cli_loop :: "nat \<Rightarrow> engine \<Rightarrow> pynum \<Rightarrow> pynum \<Rightarrow> world \<Rightarrow> pynum outcome option" where
  "cli_loop 0 eng last_progress pbar_n w = None"
| "cli_loop (Suc fuel) eng last_progress pbar_n w =
     (case handle_is_seed eng w of
        (Inl e, w1) \<Rightarrow> Some (Inl e, w1)
      | (Inr seed, w1) \<Rightarrow>
          if seed then Some (Inr pbar_n, w1)
          else (case handle_status eng w1 of
                  (Inl e, w2) \<Rightarrow> Some (Inl e, w2)
                | (Inr status, w2) \<Rightarrow>
                    if progress status * 100 > last_progress
                    then (case time_sleep eng
                                 (emit [PbarUpdate (progress status * 100 - last_progress),
                                        PbarPostfix (postfix_of status)] w2) of
                            (Inl e, w3) \<Rightarrow> Some (Inl e, w3)
                          | (Inr u, w3) \<Rightarrow>
                              cli_loop fuel eng (progress status * 100)
                                (pbar_n + (progress status * 100 - last_progress)) w3)
                    else (case time_sleep eng (emit [PbarPostfix (postfix_of status)] w2) of
                            (Inl e, w3) \<Rightarrow> Some (Inl e, w3)
                          | (Inr u, w3) \<Rightarrow> cli_loop fuel eng last_progress pbar_n w3)))"

text \<open>
  \<^verbatim>\<open>download_torrent\<close>. The function returns nothing; an exception raised outside its
  \<^verbatim>\<open>try\<close> blocks leaves it as the \<open>Inl\<close> result.
\<close>

definition download_torrent :: "nat \<Rightarrow> engine \<Rightarrow> string \<Rightarrow> world \<Rightarrow> unit outcome option" where
  "download_torrent fuel eng magnet_link w =
     (case parse_magnet_uri eng magnet_link of
        None \<Rightarrow> Some (Inr (), new_session w)
      | Some h \<Rightarrow>
          (case cli_wait eng (clock w) 0 (add_torrent h (new_session w)) of
             (Inl e, w2) \<Rightarrow> Some (Inl e, w2)
           | (Inr found, w2) \<Rightarrow>
               if \<not> found then Some (Inr (), w2)
               else
                 (case cli_loop fuel eng 0 0 w2 of
                    None \<Rightarrow> None
                  | Some (Inr pbar_n, w3) \<Rightarrow>
                      Some (Inr (),
                            emit ((if pbar_n < 100 then [PbarUpdate (100 - pbar_n)] else [])
                                  @ [PbarClose, SessionPaused]) w3)
                  | Some (Inl e, w3) \<Rightarrow>
                      if e = KeyboardInterrupt
                      then Some (Inr (), emit [PbarClose, TorrentPaused h, SessionPaused, SessionPaused] w3)
                      else Some (Inr (), emit [PbarClose, SessionPaused] w3))))"

text \<open>\<^verbatim>\<open>main\<close> of the command-line front end.\<close>

definition cli_main :: "nat \<Rightarrow> engine \<Rightarrow> string list \<Rightarrow> world \<Rightarrow> (ending \<times> world) option" where
  "cli_main fuel eng argv w =
     (if length argv < 2 then Some (Exit 1, w)
      else
        (case download_torrent fuel eng (argv ! 1) w of
           None \<Rightarrow> None
         | Some (Inl e, w1) \<Rightarrow> Some (Uncaught e, w1)
         | Some (Inr u, w1) \<Rightarrow> Some (Exit 0, w1)))"

section \<open>Observations and sample runs\<close>

text \<open>The unit names in the order \<^verbatim>\<open>format_bytes\<close> tries them, with the fall-through.\<close>

definition unit_names :: "string list" where
  "unit_names = [''B'', ''KB'', ''MB'', ''GB'', ''TB'', ''PB'']"

text \<open>
  Two readings of the unit rule. \<open>first_unit_below\<close> is the first unit, in ascending
  order, at which the value scaled down by powers of 1024 is below 1024, and PB when there
  is none among B to TB. \<open>largest_unit_below\<close> is the largest of the six units with that
  property, and PB when there is none.
\<close>

definition first_unit_below :: "pynum \<Rightarrow> nat" where
  "first_unit_below b =
     (case find (\<lambda>k. b / 1024 ^ k < 1024) [0, 1, 2, 3, 4] of Some k \<Rightarrow> k | None \<Rightarrow> 5)"

definition largest_unit_below :: "pynum \<Rightarrow> nat" where
  "largest_unit_below b =
     (case find (\<lambda>k. b / 1024 ^ k < 1024) [5, 4, 3, 2, 1, 0] of Some k \<Rightarrow> k | None \<Rightarrow> 5)"

text \<open>The \<^verbatim>\<open>'progress'\<close> entries of the dictionaries passed to \<^verbatim>\<open>on_progress\<close>, in order.\<close>

fun progress_values :: "event list \<Rightarrow> pynum list" where
  "progress_values [] = []"
| "progress_values (OnProgress p # evs) = info_progress p # progress_values evs"
| "progress_values (ev # evs) = progress_values evs"

text \<open>
  The callbacks of \<open>k\<close> cycles of the download loop that starts at call number \<open>c\<close>:
  cycle \<open>j\<close> asks for the seed state at call \<open>c + 3 * j\<close>, reads the status at the next
  call and sleeps at the one after.
\<close>

definition callbacks :: "engine \<Rightarrow> nat \<Rightarrow> nat \<Rightarrow> event list" where
  "callbacks eng c k =
     map (\<lambda>j. OnProgress (progress_info_of (status_at eng (c + 3 * j + 1)))) [0..<k]"

text \<open>Whether an event is an update of the progress bar.\<close>

fun is_bar :: "event \<Rightarrow> bool" where
  "is_bar (PbarUpdate d) = True"
| "is_bar (PbarPostfix s) = True"
| "is_bar ev = False"

text \<open>Whether an event belongs to the shutdown sequence.\<close>

fun is_pause :: "event \<Rightarrow> bool" where
  "is_pause (TorrentPaused h) = True"
| "is_pause SessionPaused = True"
| "is_pause ev = False"

text \<open>
  Sample data. The parser accepts a link that starts with the usual magnet prefix and
  takes the rest as the info-hash.
\<close>

definition demo_parse :: "string \<Rightarrow> string option" where
  "demo_parse s =
     (if take 20 s = ''magnet:?xt=urn:btih:'' \<and> drop 20 s \<noteq> [] then Some (drop 20 s) else None)"

definition demo_link :: string where
  "demo_link = ''magnet:?xt=urn:btih:c0ffee''"

definition demo_info :: torrent_info where
  "demo_info =
     \<lparr>name = ''demo'',
      files = [\<lparr>file_path = ''demo/a.bin'', file_size = 6291456\<rparr>,
               \<lparr>file_path = ''demo/b.bin'', file_size = 4194304\<rparr>],
      total_size = 10485760\<rparr>"

definition demo_status :: "bool \<Rightarrow> bool \<Rightarrow> torrent_status" where
  "demo_status meta seed =
     \<lparr>has_metadata = meta, progress = (if seed then 1 else 1 / 2),
      download_rate = 2048, upload_rate = 0, num_peers = 3, num_seeds = 1,
      total_done = (if seed then 10485760 else 5242880), total_wanted = 10485760,
      state = (if seed then ''seeding'' else ''downloading''), is_seed = seed\<rparr>"

text \<open>
  Sample engines. Unless said otherwise their calls take no time, so that only the sleeps
  advance the clock. The first never obtains the metadata.
\<close>

definition dead_engine :: engine where
  "dead_engine =
     \<lparr>parse_magnet_uri = demo_parse, status_at = (\<lambda>n. demo_status False False),
      signal_at = (\<lambda>n. None), duration_at = (\<lambda>n. 0), get_torrent_info = demo_info\<rparr>"

text \<open>The same engine with calls that take a millisecond each.\<close>

definition sluggish_engine :: engine where
  "sluggish_engine = dead_engine\<lparr>duration_at := (\<lambda>n. 1 / 1000)\<rparr>"

text \<open>
  An engine that has the metadata at once and reports the seed state from the eighth call
  on: the download loop runs two full cycles.
\<close>

definition demo_engine :: engine where
  "demo_engine =
     \<lparr>parse_magnet_uri = demo_parse, status_at = (\<lambda>n. demo_status True (7 \<le> n)),
      signal_at = (\<lambda>n. None), duration_at = (\<lambda>n. 0), get_torrent_info = demo_info\<rparr>"

text \<open>The same engine with a user interrupt during the first sleep of the download loop.\<close>

definition interrupted_engine :: engine where
  "interrupted_engine = demo_engine\<lparr>signal_at := (\<lambda>n. if n = 3 then Some Interrupt else None)\<rparr>"

text \<open>The same engine with an engine fault at the first status query of the download loop.\<close>

definition faulty_engine :: engine where
  "faulty_engine = demo_engine\<lparr>signal_at := (\<lambda>n. if n = 2 then Some Fault else None)\<rparr>"

text \<open>The same engine with a second user interrupt at the call after the first.\<close>

definition twice_interrupted_engine :: engine where
  "twice_interrupted_engine =
     demo_engine\<lparr>signal_at := (\<lambda>n. if n = 3 \<or> n = 4 then Some Interrupt else None)\<rparr>"

text \<open>
  An engine whose calls take a millisecond each and that first has the metadata at call
  180. With three calls in each cycle of the wait of \<^verbatim>\<open>download\<close>, the calls before
  it include 60 sleeps of one second: call 180 is the poll that starts 60.18 seconds after
  the wait began. The engine reports the seed state from the start.
\<close>

definition late_engine :: engine where
  "late_engine =
     \<lparr>parse_magnet_uri = demo_parse, status_at = (\<lambda>n. demo_status (180 \<le> n) True),
      signal_at = (\<lambda>n. None), duration_at = (\<lambda>n. 1 / 1000), get_torrent_info = demo_info\<rparr>"

definition demo_world :: world where
  "demo_world = \<lparr>calls = 0, clock = 0, torrents = [], events = []\<rparr>"

section \<open>Properties of the formatting helpers\<close>

lemma floor_div_int:
  assumes "0 < b"
  shows "\<lfloor>(x::rat) / of_int b\<rfloor> = \<lfloor>x\<rfloor> div b"
proof -
  have "\<lfloor>x / of_int b\<rfloor> = \<lfloor>(of_rat (x / of_int b)) :: real\<rfloor>"
    by simp
  also have "\<dots> = \<lfloor>(of_rat x :: real) / real_of_int b\<rfloor>"
    by (simp add: of_rat_divide)
  also have "\<dots> = \<lfloor>of_rat x :: real\<rfloor> div b"
    using assms by (intro floor_divide_real_eq_div) simp
  finally show ?thesis by simp
qed

lemma py_int_of_int: "py_int (of_int k) = k"
  by (simp add: py_int_def)

lemma py_mod_eq: "0 < b \<Longrightarrow> py_mod s (of_int b) = s - of_int (b * (\<lfloor>s\<rfloor> div b))"
  by (simp add: py_mod_def floor_div_int)

lemma py_mod_floor: "0 < b \<Longrightarrow> \<lfloor>py_mod s (of_int b)\<rfloor> = \<lfloor>s\<rfloor> mod b"
  by (simp only: py_mod_eq floor_diff_of_int minus_mult_div_eq_mod)

lemma py_mod_nonneg: "0 < b \<Longrightarrow> 0 \<le> py_mod s (of_int b)"
proof -
  assume b: "0 < b"
  have "0 \<le> \<lfloor>s\<rfloor> mod b" using b by simp
  then have "0 \<le> \<lfloor>py_mod s (of_int b)\<rfloor>" using b by (simp add: py_mod_floor)
  then show ?thesis by (simp only: zero_le_floor)
qed

text \<open>The three fields \<^verbatim>\<open>format_time\<close> computes, in terms of the whole seconds.\<close>

lemma hours_eq: "py_int (py_floordiv s 3600) = \<lfloor>s\<rfloor> div 3600"
  using floor_div_int [of 3600 s] by (simp add: py_floordiv_def py_int_of_int)

lemma minutes_eq: "py_int (py_floordiv (py_mod s 3600) 60) = (\<lfloor>s\<rfloor> mod 3600) div 60"
  using floor_div_int [of 60 "py_mod s 3600"] py_mod_floor [of 3600 s]
  by (simp add: py_floordiv_def py_int_of_int)

lemma secs_eq: "py_int (py_mod s 60) = \<lfloor>s\<rfloor> mod 60"
  using py_mod_floor [of 60 s] py_mod_nonneg [of 60 s] by (simp add: py_int_def)

lemma format_time_eq:
  "format_time s =
     (if s = 0 then ''N/A''
      else if \<lfloor>s\<rfloor> div 3600 > 0
      then show_int (\<lfloor>s\<rfloor> div 3600) @ ''h '' @ show_int ((\<lfloor>s\<rfloor> mod 3600) div 60) @ ''m ''
           @ show_int (\<lfloor>s\<rfloor> mod 60) @ ''s''
      else if (\<lfloor>s\<rfloor> mod 3600) div 60 > 0
      then show_int ((\<lfloor>s\<rfloor> mod 3600) div 60) @ ''m '' @ show_int (\<lfloor>s\<rfloor> mod 60) @ ''s''
      else show_int (\<lfloor>s\<rfloor> mod 60) @ ''s'')"
  unfolding format_time_def Let_def hours_eq minutes_eq secs_eq by simp

text \<open>
  Claim C7. For a duration \<open>s \<ge> 0\<close> with whole seconds \<open>n = \<lfloor>s\<rfloor>\<close>,
  \<^verbatim>\<open>format_time\<close> returns the label \<^verbatim>\<open>N/A\<close> at \<open>s = 0\<close>; otherwise
  \<^verbatim>\<open>"Ns"\<close> with \<open>N = n\<close> below one minute, \<^verbatim>\<open>"Mm Ns"\<close> with \<open>M = n div 60\<close> and
  \<open>N = n mod 60\<close> from one minute to below one hour, and \<^verbatim>\<open>"Hh Mm Ns"\<close> with
  \<open>H = n div 3600\<close>, \<open>M = (n mod 3600) div 60\<close> and \<open>N = n mod 60\<close> from one hour on.
\<close>

theorem format_time_units:
  "0 \<le> s \<Longrightarrow>
   format_time s =
     (if s = 0 then ''N/A''
      else if s < 60 then show_int \<lfloor>s\<rfloor> @ ''s''
      else if s < 3600 then show_int (\<lfloor>s\<rfloor> div 60) @ ''m '' @ show_int (\<lfloor>s\<rfloor> mod 60) @ ''s''
      else show_int (\<lfloor>s\<rfloor> div 3600) @ ''h '' @ show_int ((\<lfloor>s\<rfloor> mod 3600) div 60) @ ''m ''
           @ show_int (\<lfloor>s\<rfloor> mod 60) @ ''s'')"
proof -
  assume s: "0 \<le> s"
  define n where "n = \<lfloor>s\<rfloor>"
  have n0: "0 \<le> n" using s by (simp add: n_def)
  have lt60: "s < 60 \<longleftrightarrow> n < 60" unfolding n_def using floor_less_iff [of s 60] by simp
  have lt3600: "s < 3600 \<longleftrightarrow> n < 3600" unfolding n_def using floor_less_iff [of s 3600] by simp
  have h: "n div 3600 > 0 \<longleftrightarrow> \<not> n < 3600"
    using pos_imp_zdiv_pos_iff [of 3600 n] by linarith
  have m: "n < 3600 \<Longrightarrow> (n mod 3600) div 60 = n div 60" using n0 by simp
  have m2: "n div 60 > 0 \<longleftrightarrow> \<not> n < 60"
    using pos_imp_zdiv_pos_iff [of 60 n] by linarith
  have s60: "n < 60 \<Longrightarrow> n mod 60 = n" using n0 by simp
  show ?thesis
    unfolding format_time_eq lt60 lt3600 n_def [symmetric]
    using h m m2 s60 by auto
qed

theorem format_time_units_witness:
  "format_time 3725 = ''1h 2m 5s'' \<and> format_time 125 = ''2m 5s'' \<and>
   format_time 59 = ''59s'' \<and> format_time 0 = ''N/A''"
  using format_time_units [of 3725] format_time_units [of 125]
    format_time_units [of 59] format_time_units [of 0]
  by (simp add: show_int_def show_nat.simps digit_char_def)

text \<open>
  Claim C8, as the code has it. \<^verbatim>\<open>format_bytes\<close> takes the first unit, in the order
  B, KB, MB, GB, TB, at which the byte count divided by the matching power of 1024 is
  below 1024, and PB when there is none; it renders the scaled value with two decimals,
  a blank and that unit.
\<close>

theorem format_bytes_first_unit:
  "format_bytes b =
     format_2f (b / 1024 ^ first_unit_below b) @ '' '' @ unit_names ! first_unit_below b"
  by (simp add: format_bytes_def first_unit_below_def unit_names_def)

text \<open>
  The reading "the largest unit at which the scaled value is below 1024" fails at 500
  bytes: even the count in PB is below 1024, and the code answers in B.
\<close>

theorem format_bytes_largest_unit_counterexample:
  "format_bytes 500 = ''500.00 B'' \<and> largest_unit_below 500 = 5 \<and> unit_names ! 5 = ''PB'' \<and>
   format_bytes 500 \<noteq>
     format_2f (500 / 1024 ^ largest_unit_below 500) @ '' '' @ unit_names ! largest_unit_below 500"
  by (simp add: format_bytes_def largest_unit_below_def unit_names_def format_2f_def
      round_half_even_def show_nat.simps digit_char_def)

text \<open>
  Claim C10. \<^verbatim>\<open>format_time\<close> returns \<^verbatim>\<open>N/A\<close> exactly at the input 0; a positive
  duration below one second gives \<^verbatim>\<open>0s\<close>.
\<close>

theorem format_time_sentinel:
  "(format_time s = ''N/A'' \<longleftrightarrow> s = 0) \<and> (0 < s \<and> s < 1 \<longrightarrow> format_time s = ''0s'')"
proof
  have "last (format_time s) = CHR ''s''" if "s \<noteq> 0"
    using that unfolding format_time_eq by simp
  then have "format_time s \<noteq> ''N/A''" if "s \<noteq> 0"
    using that by force
  moreover have "format_time 0 = ''N/A''" by (simp add: format_time_def)
  ultimately show "format_time s = ''N/A'' \<longleftrightarrow> s = 0" by blast
next
  show "0 < s \<and> s < 1 \<longrightarrow> format_time s = ''0s''"
  proof
    assume a: "0 < s \<and> s < 1"
    then have "\<lfloor>s\<rfloor> = 0" by (simp add: floor_eq_iff)
    with a show "format_time s = ''0s''"
      unfolding format_time_eq by (simp add: show_int_def show_nat.simps digit_char_def)
  qed
qed

theorem format_time_sentinel_witness:
  "format_time (1 / 2) = ''0s'' \<and> format_time (1 / 2) \<noteq> ''N/A''"
  using format_time_sentinel [of "1 / 2"] by simp

section \<open>Properties of the download lifecycle\<close>

subsection \<open>The primitives and the metadata wait\<close>

lemma after_call_simps [simp]:
  "calls (after_call eng w) = Suc (calls w)"
  "events (after_call eng w) = events w"
  "torrents (after_call eng w) = torrents w"
  by (simp_all add: after_call_def)

lemma after_call_clock: "clock w \<le> clock (after_call eng w)"
  by (simp add: after_call_def)

lemma quiet_status:
  "signal_at eng (calls w) = None \<Longrightarrow>
   handle_status eng w = (Inr (status_at eng (calls w)), after_call eng w)"
  by (simp add: handle_status_def)

lemma quiet_is_seed:
  "signal_at eng (calls w) = None \<Longrightarrow>
   handle_is_seed eng w = (Inr (is_seed (status_at eng (calls w))), after_call eng w)"
  by (simp add: handle_is_seed_def)

lemma quiet_sleep:
  "signal_at eng (calls w) = None \<Longrightarrow>
   time_sleep eng w = (Inr (), (after_call eng w)\<lparr>clock := clock (after_call eng w) + 1\<rparr>)"
  by (simp add: time_sleep_def)

lemma download_wait_frame:
  "events (snd (download_wait eng start_time w)) = events w \<and>
   torrents (snd (download_wait eng start_time w)) = torrents w"
proof (induction eng start_time w rule: download_wait.induct)
  case (1 eng start_time w)
  show ?case
    apply (subst download_wait.simps)
    apply (subst (2) download_wait.simps)
    using 1
    by (auto simp: handle_status_def time_sleep_def split: prod.splits sum.splits option.splits)
qed

lemma get_info_wait_frame:
  "events (snd (get_info_wait eng start_time w)) = events w \<and>
   torrents (snd (get_info_wait eng start_time w)) = torrents w"
proof (induction eng start_time w rule: get_info_wait.induct)
  case (1 eng start_time w)
  show ?case
    apply (subst get_info_wait.simps)
    apply (subst (2) get_info_wait.simps)
    using 1
    by (auto simp: handle_status_def time_sleep_def split: prod.splits sum.splits option.splits)
qed

lemma cli_wait_frame:
  "events (snd (cli_wait eng start_time lpc w)) = events w \<and>
   torrents (snd (cli_wait eng start_time lpc w)) = torrents w"
proof (induction eng start_time lpc w rule: cli_wait.induct)
  case (1 eng start_time lpc w)
  show ?case
    apply (subst cli_wait.simps)
    apply (subst (2) cli_wait.simps)
    using 1
    by (auto simp: handle_status_def time_sleep_def split: prod.splits sum.splits option.splits)
qed

text \<open>
  A wait that sees neither metadata nor a signal ends at its 60 second check, after at most
  \<open>k\<close> further cycles when the clock is within \<open>k\<close> seconds of the 61st second.
\<close>

lemma download_wait_timeout_aux:
  "\<forall>i < 3 * k + 1. \<not> has_metadata (status_at eng (calls w + i)) \<and> signal_at eng (calls w + i) = None \<Longrightarrow>
   start_time + 61 - clock w \<le> of_nat k \<Longrightarrow>
   \<exists>w'. download_wait eng start_time w = (Inl TimeoutError, w') \<and> calls w' \<le> calls w + 3 * k + 1"
proof (induction k arbitrary: w)
  case 0
  have q: "signal_at eng (calls w) = None" "\<not> has_metadata (status_at eng (calls w))"
    using "0.prems"(1) by auto
  have late: "clock (after_call eng w) - start_time > 60"
    using "0.prems"(2) after_call_clock [of w eng] by simp
  show ?case
    by (subst download_wait.simps) (simp add: quiet_status q late)
next
  case (Suc k)
  have q: "signal_at eng (calls w) = None" "\<not> has_metadata (status_at eng (calls w))"
    "signal_at eng (Suc (calls w)) = None" "signal_at eng (Suc (Suc (calls w))) = None"
    using Suc.prems(1) [rule_format, of 0] Suc.prems(1) [rule_format, of 1]
      Suc.prems(1) [rule_format, of 2] by simp_all
  let ?w1 = "after_call eng w"
  let ?w2 = "after_call eng ?w1"
  let ?w3 = "(after_call eng ?w2)\<lparr>clock := clock (after_call eng ?w2) + 1\<rparr>"
  show ?case
  proof (cases "clock ?w1 - start_time > 60")
    case True
    then show ?thesis
      by (subst download_wait.simps) (simp add: quiet_status q)
  next
    case False
    have unfold: "download_wait eng start_time w = download_wait eng start_time ?w3"
      by (subst download_wait.simps) (simp add: quiet_status quiet_sleep q False)
    have "clock w + 1 \<le> clock ?w3"
      using after_call_clock [of w eng] after_call_clock [of ?w1 eng] after_call_clock [of ?w2 eng]
      by simp
    then have t: "start_time + 61 - clock ?w3 \<le> of_nat k" using Suc.prems(2) by simp
    have a: "\<forall>i < 3 * k + 1. \<not> has_metadata (status_at eng (calls ?w3 + i)) \<and> signal_at eng (calls ?w3 + i) = None"
    proof (intro allI impI)
      fix i assume "i < 3 * k + 1"
      then have "i + 3 < 3 * Suc k + 1" by simp
      from Suc.prems(1) [rule_format, OF this]
      show "\<not> has_metadata (status_at eng (calls ?w3 + i)) \<and> signal_at eng (calls ?w3 + i) = None"
        by (simp add: add.commute add.left_commute eval_nat_numeral)
    qed
    from Suc.IH [OF a t] obtain w' where
      "download_wait eng start_time ?w3 = (Inl TimeoutError, w')" "calls w' \<le> calls ?w3 + 3 * k + 1"
      by blast
    then show ?thesis unfolding unfold by simp
  qed
qed

lemma download_wait_timeout:
  assumes "\<forall>i < 184. \<not> has_metadata (status_at eng (calls w + i)) \<and> signal_at eng (calls w + i) = None"
  shows "\<exists>w'. download_wait eng (clock w) w = (Inl TimeoutError, w')
              \<and> events w' = events w \<and> torrents w' = torrents w"
proof -
  from download_wait_timeout_aux [of 61 eng w "clock w"] assms
  obtain w' where r: "download_wait eng (clock w) w = (Inl TimeoutError, w')" by auto
  with download_wait_frame [of eng "clock w" w] show ?thesis by simp
qed

lemma cli_wait_timeout_aux:
  "\<forall>i < 3 * k + 1. \<not> has_metadata (status_at eng (calls w + i)) \<and> signal_at eng (calls w + i) = None \<Longrightarrow>
   start_time + 61 - clock w \<le> of_nat k \<Longrightarrow>
   \<exists>w'. cli_wait eng start_time lpc w = (Inr False, w') \<and> calls w' \<le> calls w + 3 * k + 1"
proof (induction k arbitrary: w lpc)
  case 0
  have q: "signal_at eng (calls w) = None" "\<not> has_metadata (status_at eng (calls w))"
    using "0.prems"(1) by auto
  have late: "clock (after_call eng w) - start_time > 60"
    using "0.prems"(2) after_call_clock [of w eng] by simp
  show ?case
    by (subst cli_wait.simps) (simp add: quiet_status q late)
next
  case (Suc k)
  have q: "signal_at eng (calls w) = None" "\<not> has_metadata (status_at eng (calls w))"
    "signal_at eng (Suc (calls w)) = None" "signal_at eng (Suc (Suc (calls w))) = None"
    using Suc.prems(1) [rule_format, of 0] Suc.prems(1) [rule_format, of 1]
      Suc.prems(1) [rule_format, of 2] by simp_all
  let ?w1 = "after_call eng w"
  let ?w2 = "after_call eng ?w1"
  let ?w3 = "(after_call eng ?w2)\<lparr>clock := clock (after_call eng ?w2) + 1\<rparr>"
  show ?case
  proof (cases "clock ?w1 - start_time > 60")
    case True
    then show ?thesis
      by (subst cli_wait.simps) (simp add: quiet_status q)
  next
    case False
    let ?lpc = "if num_peers (status_at eng (Suc (calls w))) \<noteq> lpc \<and> 0 < num_peers (status_at eng (Suc (calls w)))
                then num_peers (status_at eng (Suc (calls w))) else lpc"
    have unfold: "cli_wait eng start_time lpc w = cli_wait eng start_time ?lpc ?w3"
      by (subst cli_wait.simps) (simp add: quiet_status quiet_sleep q False)
    have "clock w + 1 \<le> clock ?w3"
      using after_call_clock [of w eng] after_call_clock [of ?w1 eng] after_call_clock [of ?w2 eng]
      by simp
    then have t: "start_time + 61 - clock ?w3 \<le> of_nat k" using Suc.prems(2) by simp
    have a: "\<forall>i < 3 * k + 1. \<not> has_metadata (status_at eng (calls ?w3 + i)) \<and> signal_at eng (calls ?w3 + i) = None"
    proof (intro allI impI)
      fix i assume "i < 3 * k + 1"
      then have "i + 3 < 3 * Suc k + 1" by simp
      from Suc.prems(1) [rule_format, OF this]
      show "\<not> has_metadata (status_at eng (calls ?w3 + i)) \<and> signal_at eng (calls ?w3 + i) = None"
        by (simp add: add.commute add.left_commute eval_nat_numeral)
    qed
    from Suc.IH [OF a t, of ?lpc] obtain w' where
      "cli_wait eng start_time ?lpc ?w3 = (Inr False, w')" "calls w' \<le> calls ?w3 + 3 * k + 1"
      by blast
    then show ?thesis unfolding unfold by simp
  qed
qed


lemma cli_wait_timeout:
  assumes "\<forall>i < 184. \<not> has_metadata (status_at eng (calls w + i)) \<and> signal_at eng (calls w + i) = None"
  shows "\<exists>w'. cli_wait eng (clock w) lpc w = (Inr False, w')
              \<and> events w' = events w \<and> torrents w' = torrents w"
proof -
  from cli_wait_timeout_aux [of 61 eng w "clock w" lpc] assms
  obtain w' where r: "cli_wait eng (clock w) lpc w = (Inr False, w')" by auto
  with cli_wait_frame [of eng "clock w" lpc w] show ?thesis by simp
qed


lemma get_info_wait_timeout_aux:
  "\<forall>i < 2 * k + 1. \<not> has_metadata (status_at eng (calls w + i)) \<and> signal_at eng (calls w + i) = None \<Longrightarrow>
   start_time + 61 - clock w \<le> of_nat k \<Longrightarrow>
   \<exists>w'. get_info_wait eng start_time w = (Inl TimeoutError, w') \<and> calls w' \<le> calls w + 2 * k + 1"
proof (induction k arbitrary: w)
  case 0
  have q: "signal_at eng (calls w) = None" "\<not> has_metadata (status_at eng (calls w))"
    using "0.prems"(1) by auto
  have late: "clock (after_call eng w) - start_time > 60"
    using "0.prems"(2) after_call_clock [of w eng] by simp
  show ?case
    by (subst get_info_wait.simps) (simp add: quiet_status q late)
next
  case (Suc k)
  have q: "signal_at eng (calls w) = None" "\<not> has_metadata (status_at eng (calls w))"
    "signal_at eng (Suc (calls w)) = None"
    using Suc.prems(1) [rule_format, of 0] Suc.prems(1) [rule_format, of 1] by simp_all
  let ?w1 = "after_call eng w"
  let ?w3 = "(after_call eng ?w1)\<lparr>clock := clock (after_call eng ?w1) + 1\<rparr>"
  show ?case
  proof (cases "clock ?w1 - start_time > 60")
    case True
    then show ?thesis
      by (subst get_info_wait.simps) (simp add: quiet_status q)
  next
    case False
    have unfold: "get_info_wait eng start_time w = get_info_wait eng start_time ?w3"
      by (subst get_info_wait.simps) (simp add: quiet_status quiet_sleep q False)
    have "clock w + 1 \<le> clock ?w3"
      using after_call_clock [of w eng] after_call_clock [of ?w1 eng] by simp
    then have t: "start_time + 61 - clock ?w3 \<le> of_nat k" using Suc.prems(2) by simp
    have a: "\<forall>i < 2 * k + 1. \<not> has_metadata (status_at eng (calls ?w3 + i)) \<and> signal_at eng (calls ?w3 + i) = None"
    proof (intro allI impI)
      fix i assume "i < 2 * k + 1"
      then have "i + 2 < 2 * Suc k + 1" by simp
      from Suc.prems(1) [rule_format, OF this]
      show "\<not> has_metadata (status_at eng (calls ?w3 + i)) \<and> signal_at eng (calls ?w3 + i) = None"
        by (simp add: add.commute add.left_commute eval_nat_numeral)
    qed
    from Suc.IH [OF a t] obtain w' where
      "get_info_wait eng start_time ?w3 = (Inl TimeoutError, w')" "calls w' \<le> calls ?w3 + 2 * k + 1"
      by blast
    then show ?thesis unfolding unfold by simp
  qed
qed

lemma get_info_wait_timeout:
  assumes "\<forall>i < 123. \<not> has_metadata (status_at eng (calls w + i)) \<and> signal_at eng (calls w + i) = None"
  shows "\<exists>w'. get_info_wait eng (clock w) w = (Inl TimeoutError, w')
              \<and> events w' = events w \<and> torrents w' = torrents w"
proof -
  from get_info_wait_timeout_aux [of 61 eng w "clock w"] assms
  obtain w' where r: "get_info_wait eng (clock w) w = (Inl TimeoutError, w')" by auto
  with get_info_wait_frame [of eng "clock w" w] show ?thesis by simp
qed

lemma download_wait_ready:
  "signal_at eng (calls w) = None \<Longrightarrow> has_metadata (status_at eng (calls w)) \<Longrightarrow>
   download_wait eng start_time w = (Inr (), after_call eng w)"
  by (subst download_wait.simps) (simp add: quiet_status)

lemma cli_wait_ready:
  "signal_at eng (calls w) = None \<Longrightarrow> has_metadata (status_at eng (calls w)) \<Longrightarrow>
   cli_wait eng start_time lpc w = (Inr True, after_call eng w)"
  by (subst cli_wait.simps) (simp add: quiet_status)

lemma get_info_wait_ready:
  "signal_at eng (calls w) = None \<Longrightarrow> has_metadata (status_at eng (calls w)) \<Longrightarrow>
   get_info_wait eng start_time w = (Inr (), after_call eng w)"
  by (subst get_info_wait.simps) (simp add: quiet_status)

text \<open>
  With calls that all take the same time \<open>d\<close>, metadata first seen at the poll of
  cycle \<open>m\<close> is accepted as long as the check of the cycle before was made within
  60 seconds.
\<close>

lemma download_wait_found:
  assumes dur: "\<forall>n. duration_at eng n = d" and d: "0 \<le> d"
    and quiet: "\<forall>n. signal_at eng n = None"
  shows "\<forall>j<m. \<not> has_metadata (status_at eng (calls w + 3 * j)) \<Longrightarrow>
         has_metadata (status_at eng (calls w + 3 * m)) \<Longrightarrow>
         clock w + of_nat m * (1 + 3 * d) \<le> start_time + 61 + 2 * d \<Longrightarrow>
         \<exists>w'. download_wait eng start_time w = (Inr (), w') \<and> calls w' = calls w + 3 * m + 1
               \<and> clock w' = clock w + of_nat m * (1 + 3 * d) + d"
proof (induction m arbitrary: w)
  case 0
  have "clock (after_call eng w) = clock w + d"
    using dur d by (simp add: after_call_def max_def)
  with 0 quiet show ?case by (simp add: download_wait_ready)
next
  case (Suc m)
  have z: "clock (after_call eng v) = clock v + d" for v
    using dur d by (simp add: after_call_def max_def)
  let ?w3 = "(after_call eng (after_call eng (after_call eng w)))
              \<lparr>clock := clock (after_call eng (after_call eng (after_call eng w))) + 1\<rparr>"
  have step: "of_nat (Suc m) * (1 + 3 * d) = (1 + 3 * d) + of_nat m * (1 + 3 * d)"
    by (simp add: algebra_simps)
  have pos: "0 \<le> of_nat m * (1 + 3 * d)"
    using d by simp
  have nm: "\<not> has_metadata (status_at eng (calls w))" using Suc.prems(1) by force
  have nt: "\<not> clock (after_call eng w) - start_time > 60"
    using Suc.prems(3) pos unfolding step z by linarith
  have unfold: "download_wait eng start_time w = download_wait eng start_time ?w3"
    by (subst download_wait.simps) (simp add: quiet_status quiet_sleep quiet nm nt)
  have c3: "calls ?w3 = calls w + 3" "clock ?w3 = clock w + (1 + 3 * d)" by (simp_all add: z)
  have a: "\<forall>j<m. \<not> has_metadata (status_at eng (calls ?w3 + 3 * j))"
  proof (intro allI impI)
    fix j assume "j < m"
    then have "Suc j < Suc m" by simp
    then have "\<not> has_metadata (status_at eng (calls w + 3 * Suc j))" using Suc.prems(1) by blast
    moreover have "calls ?w3 + 3 * j = calls w + 3 * Suc j" by simp
    ultimately show "\<not> has_metadata (status_at eng (calls ?w3 + 3 * j))" by metis
  qed
  have "calls ?w3 + 3 * m = calls w + 3 * Suc m" by simp
  then have b: "has_metadata (status_at eng (calls ?w3 + 3 * m))" using Suc.prems(2) by metis
  have c: "clock ?w3 + of_nat m * (1 + 3 * d) \<le> start_time + 61 + 2 * d"
    using Suc.prems(3) unfolding step c3 by linarith
  from Suc.IH [OF a b c] obtain w' where
    "download_wait eng start_time ?w3 = (Inr (), w')" "calls w' = calls ?w3 + 3 * m + 1"
    "clock w' = clock ?w3 + of_nat m * (1 + 3 * d) + d"
    by blast
  then show ?case unfolding unfold step c3 by simp
qed

lemma add_torrent_frame [simp]:
  "clock (add_torrent h w) = clock w" "calls (add_torrent h w) = calls w"
  "events (add_torrent h w) = events w @ [TorrentAdded h]"
  "h \<in> set (torrents (add_torrent h w))"
  by (simp_all add: add_torrent_def emit_def)

lemma emit_frame [simp]:
  "clock (emit evs w) = clock w" "calls (emit evs w) = calls w"
  "events (emit evs w) = events w @ evs" "torrents (emit evs w) = torrents w"
  by (simp_all add: emit_def)

lemma new_session_frame [simp]:
  "clock (new_session w) = clock w" "calls (new_session w) = calls w"
  "events (new_session w) = events w @ [SessionCreated]" "torrents (new_session w) = []"
  by (simp_all add: new_session_def)

subsection \<open>The download loop\<close>

lemma download_loop_step:
  assumes "signal_at eng (calls w) = None" "\<not> is_seed (status_at eng (calls w))"
    "signal_at eng (Suc (calls w)) = None" "signal_at eng (Suc (Suc (calls w))) = None"
  shows "\<exists>w3. download_loop (Suc fuel) eng cb w = download_loop fuel eng cb w3
             \<and> calls w3 = calls w + 3 \<and> torrents w3 = torrents w
             \<and> events w3 = events w @ (if cb then [OnProgress (progress_info_of (status_at eng (Suc (calls w))))] else [])"
  using assms
  apply (cases cb; simp add: quiet_is_seed quiet_status quiet_sleep)
   apply (rule exI, rule conjI, rule refl, simp)
  apply (rule exI, rule conjI, rule refl, simp)
  done

lemma download_loop_stop:
  assumes "signal_at eng (calls w) = None" "is_seed (status_at eng (calls w))"
  shows "download_loop (Suc fuel) eng cb w = Some (Inr (), after_call eng w)"
  using assms by (simp add: quiet_is_seed)

text \<open>A signal at the seed query, at the status query or in the sleep of a cycle.\<close>

lemma download_loop_signal:
  assumes "signal_at eng (calls w) = Some s"
  shows "download_loop (Suc fuel) eng cb w = Some (Inl (exn_of s), after_call eng w)"
  using assms by (simp add: handle_is_seed_def)

lemma download_loop_signal_status:
  assumes "signal_at eng (calls w) = None" "\<not> is_seed (status_at eng (calls w))"
    "signal_at eng (Suc (calls w)) = Some s"
  shows "download_loop (Suc fuel) eng cb w = Some (Inl (exn_of s), after_call eng (after_call eng w))"
  using assms by (simp add: quiet_is_seed handle_status_def)

lemma download_loop_signal_sleep:
  assumes "signal_at eng (calls w) = None" "\<not> is_seed (status_at eng (calls w))"
    "signal_at eng (Suc (calls w)) = None" "signal_at eng (Suc (Suc (calls w))) = Some s"
  shows "\<exists>w3. download_loop (Suc fuel) eng cb w = Some (Inl (exn_of s), w3)
             \<and> calls w3 = calls w + 3 \<and> torrents w3 = torrents w
             \<and> events w3 = events w @ (if cb then [OnProgress (progress_info_of (status_at eng (Suc (calls w))))] else [])"
  using assms
  by (cases cb) (simp_all add: quiet_is_seed quiet_status time_sleep_def)

lemma download_loop_events:
  "download_loop fuel eng cb w = Some (r, w') \<Longrightarrow>
   torrents w' = torrents w \<and>
   (\<exists>ns. events w' = events w @ map (\<lambda>n. OnProgress (progress_info_of (status_at eng n))) ns)"
proof (induction fuel arbitrary: w)
  case 0
  then show ?case by simp
next
  case (Suc fuel)
  show ?case
  proof (cases "signal_at eng (calls w) = None \<and> \<not> is_seed (status_at eng (calls w))
                \<and> signal_at eng (Suc (calls w)) = None \<and> signal_at eng (Suc (Suc (calls w))) = None")
    case False
    with Suc.prems show ?thesis
      by (auto simp: handle_is_seed_def handle_status_def time_sleep_def
               split: option.splits if_splits intro: exI [of _ "[]"] exI [of _ "[n]" for n])
  next
    case True
    then obtain w3 where
      step: "download_loop (Suc fuel) eng cb w = download_loop fuel eng cb w3"
      and w3: "torrents w3 = torrents w"
        "events w3 = events w @ (if cb then [OnProgress (progress_info_of (status_at eng (Suc (calls w))))] else [])"
      using download_loop_step [of eng w fuel cb] by blast
    from Suc.prems step have "download_loop fuel eng cb w3 = Some (r, w')" by simp
    from Suc.IH [OF this] obtain ns where
      "torrents w' = torrents w3"
      "events w' = events w3 @ map (\<lambda>n. OnProgress (progress_info_of (status_at eng n))) ns"
      by blast
    with w3 show ?thesis
      by (cases cb) (auto intro: exI [of _ "Suc (calls w) # ns"])
  qed
qed

declare download_loop.simps(2) [simp del]

lemma callbacks_Suc:
  "callbacks eng c (Suc k) =
     OnProgress (progress_info_of (status_at eng (Suc c))) # callbacks eng (c + 3) k"
proof -
  have e: "\<And>x. c + 3 + 3 * x + 1 = c + 3 * Suc x + 1" by simp
  show ?thesis
    unfolding callbacks_def by (simp only: map_upt_Suc e) simp
qed

lemma download_loop_cycles:
  assumes sig: "\<forall>n. signal_at eng n = None"
  shows "\<forall>j<k. \<not> is_seed (status_at eng (calls w + 3 * j)) \<Longrightarrow>
         is_seed (status_at eng (calls w + 3 * k)) \<Longrightarrow> k < fuel \<Longrightarrow>
         \<exists>w'. download_loop fuel eng cb w = Some (Inr (), w')
             \<and> calls w' = calls w + 3 * k + 1 \<and> torrents w' = torrents w
             \<and> events w' = events w @ (if cb then callbacks eng (calls w) k else [])"
proof (induction k arbitrary: w fuel)
  case 0
  then obtain f where f: "fuel = Suc f" by (cases fuel) auto
  show ?case
    unfolding f using 0 sig by (simp add: download_loop_stop callbacks_def)
next
  case (Suc k)
  then obtain f where f: "fuel = Suc f" and kf: "k < f" by (cases fuel) auto
  have ns: "\<not> is_seed (status_at eng (calls w))" using Suc.prems(1) by force
  obtain w3 where
    step: "download_loop fuel eng cb w = download_loop f eng cb w3"
    and w3: "calls w3 = calls w + 3" "torrents w3 = torrents w"
      "events w3 = events w @ (if cb then [OnProgress (progress_info_of (status_at eng (Suc (calls w))))] else [])"
    unfolding f using download_loop_step [of eng w f cb] sig ns by auto
  have a: "\<forall>j<k. \<not> is_seed (status_at eng (calls w3 + 3 * j))"
  proof (intro allI impI)
    fix j assume "j < k"
    then have "Suc j < Suc k" by simp
    then have "\<not> is_seed (status_at eng (calls w + 3 * Suc j))" using Suc.prems(1) by blast
    moreover have "calls w3 + 3 * j = calls w + 3 * Suc j" using w3 by simp
    ultimately show "\<not> is_seed (status_at eng (calls w3 + 3 * j))" by metis
  qed
  have "calls w3 + 3 * k = calls w + 3 * Suc k" using w3 by simp
  then have b: "is_seed (status_at eng (calls w3 + 3 * k))"
    using Suc.prems(2) by metis
  from Suc.IH [OF a b kf] obtain w' where
    "download_loop f eng cb w3 = Some (Inr (), w')" "calls w' = calls w3 + 3 * k + 1"
    "torrents w' = torrents w3"
    "events w' = events w3 @ (if cb then callbacks eng (calls w3) k else [])"
    by blast
  then show ?case
    unfolding step using w3 by (simp add: callbacks_Suc)
qed


lemma callbacks_0 [simp]: "callbacks eng c 0 = []"
  by (simp add: callbacks_def)

text \<open>
  The first signal arrives at call \<open>c\<close> while the loop is still running: the loop raises
  that signal's exception at once, after the callbacks of the cycles whose status had been
  read before.
\<close>

lemma download_loop_interrupted:
  assumes sig: "signal_at eng c = Some s"
  shows "\<forall>n. calls w \<le> n \<and> n < c \<longrightarrow> signal_at eng n = None \<Longrightarrow>
         \<forall>j. calls w + 3 * j < c \<longrightarrow> \<not> is_seed (status_at eng (calls w + 3 * j)) \<Longrightarrow>
         calls w \<le> c \<Longrightarrow> c - calls w < 3 * fuel \<Longrightarrow>
         \<exists>w'. download_loop fuel eng cb w = Some (Inl (exn_of s), w')
             \<and> calls w' = Suc c \<and> torrents w' = torrents w
             \<and> events w' = events w @ (if cb then callbacks eng (calls w) ((c - calls w + 1) div 3) else [])"
proof (induction fuel arbitrary: w)
  case 0
  then show ?case by simp
next
  case (Suc fuel)
  consider "c = calls w" | "c = calls w + 1" | "c = calls w + 2" | "calls w + 3 \<le> c"
    using Suc.prems(3) by linarith
  then show ?case
  proof cases
    case 1
    then show ?thesis using sig by (simp add: download_loop_signal)
  next
    case 2
    have "signal_at eng (calls w) = None" using Suc.prems(1) 2 by simp
    moreover have "\<not> is_seed (status_at eng (calls w))"
      using Suc.prems(2) [rule_format, of 0] 2 by simp
    moreover have "signal_at eng (Suc (calls w)) = Some s" using sig 2 by simp
    ultimately show ?thesis using 2 by (simp add: download_loop_signal_status)
  next
    case 3
    have a: "signal_at eng (calls w) = None" "signal_at eng (Suc (calls w)) = None"
      using Suc.prems(1) 3 by simp_all
    have b: "\<not> is_seed (status_at eng (calls w))"
      using Suc.prems(2) [rule_format, of 0] 3 by simp
    have c: "signal_at eng (Suc (Suc (calls w))) = Some s" using sig 3 by simp
    from download_loop_signal_sleep [OF a(1) b a(2) c, of fuel cb] obtain w3 where
      "download_loop (Suc fuel) eng cb w = Some (Inl (exn_of s), w3)"
      "calls w3 = calls w + 3" "torrents w3 = torrents w"
      "events w3 = events w @ (if cb then [OnProgress (progress_info_of (status_at eng (Suc (calls w))))] else [])"
      by blast
    moreover have "callbacks eng (calls w) 1 = [OnProgress (progress_info_of (status_at eng (Suc (calls w))))]"
      using callbacks_Suc [of eng "calls w" 0] by simp
    ultimately show ?thesis using 3 by simp
  next
    case 4
    have a: "signal_at eng (calls w) = None" "signal_at eng (Suc (calls w)) = None"
      "signal_at eng (Suc (Suc (calls w))) = None"
      using Suc.prems(1) 4 by simp_all
    have b: "\<not> is_seed (status_at eng (calls w))"
      using Suc.prems(2) [rule_format, of 0] 4 by simp
    from download_loop_step [OF a(1) b a(2) a(3), of fuel cb] obtain w3 where
      step: "download_loop (Suc fuel) eng cb w = download_loop fuel eng cb w3"
      and w3: "calls w3 = calls w + 3" "torrents w3 = torrents w"
        "events w3 = events w @ (if cb then [OnProgress (progress_info_of (status_at eng (Suc (calls w))))] else [])"
      by blast
    have p1: "\<forall>n. calls w3 \<le> n \<and> n < c \<longrightarrow> signal_at eng n = None"
      using Suc.prems(1) w3(1) by simp
    have p2: "\<forall>j. calls w3 + 3 * j < c \<longrightarrow> \<not> is_seed (status_at eng (calls w3 + 3 * j))"
    proof (intro allI impI)
      fix j assume "calls w3 + 3 * j < c"
      then have "calls w + 3 * Suc j < c" using w3(1) by simp
      then have "\<not> is_seed (status_at eng (calls w + 3 * Suc j))" using Suc.prems(2) by blast
      moreover have "calls w3 + 3 * j = calls w + 3 * Suc j" using w3(1) by simp
      ultimately show "\<not> is_seed (status_at eng (calls w3 + 3 * j))" by metis
    qed
    have p3: "calls w3 \<le> c" using 4 w3(1) by simp
    have p4: "c - calls w3 < 3 * fuel" using Suc.prems(4) 4 w3(1) by simp
    from Suc.IH [OF p1 p2 p3 p4] obtain w' where
      r: "download_loop fuel eng cb w3 = Some (Inl (exn_of s), w')" "calls w' = Suc c"
        "torrents w' = torrents w3"
        "events w' = events w3 @ (if cb then callbacks eng (calls w3) ((c - calls w3 + 1) div 3) else [])"
      by blast
    define K where "K = (c - calls w + 1) div 3"
    define K3 where "K3 = (c - calls w3 + 1) div 3"
    have "c - calls w + 1 = (c - calls w3 + 1) + 3" using 4 w3(1) by simp
    then have n: "K = Suc K3" unfolding K_def K3_def by simp
    have cb_eq: "callbacks eng (calls w) K =
        OnProgress (progress_info_of (status_at eng (Suc (calls w)))) # callbacks eng (calls w3) K3"
      unfolding n w3(1) by (rule callbacks_Suc)
    have "events w' = events w3 @ (if cb then callbacks eng (calls w3) K3 else [])"
      using r(4) unfolding K3_def .
    then have "events w' = events w @ (if cb then callbacks eng (calls w) K else [])"
      using w3(3) cb_eq by (cases cb) simp_all
    then show ?thesis
      unfolding step K_def using r(1,2,3) w3(2)
      by (intro exI [of _ w']) simp
  qed
qed

subsection \<open>The download loop of the command-line front end\<close>

lemma cli_loop_step:
  assumes "signal_at eng (calls w) = None" "\<not> is_seed (status_at eng (calls w))"
    "signal_at eng (Suc (calls w)) = None" "signal_at eng (Suc (Suc (calls w))) = None"
  shows "\<exists>lp' n' w3 evs. cli_loop (Suc fuel) eng lp n w = cli_loop fuel eng lp' n' w3
             \<and> calls w3 = calls w + 3 \<and> torrents w3 = torrents w
             \<and> events w3 = events w @ evs \<and> list_all is_bar evs"
proof (cases "progress (status_at eng (Suc (calls w))) * 100 > lp")
  case True
  show ?thesis
    apply (rule exI [of _ "progress (status_at eng (Suc (calls w))) * 100"])
    apply (rule exI [of _ "n + (progress (status_at eng (Suc (calls w))) * 100 - lp)"])
    using assms True
    apply (simp add: quiet_is_seed quiet_status quiet_sleep)
    apply (rule exI, rule conjI, rule refl, simp)
    done
next
  case False
  show ?thesis
    apply (rule exI [of _ lp])
    apply (rule exI [of _ n])
    using assms False
    apply (simp add: quiet_is_seed quiet_status quiet_sleep)
    apply (rule exI, rule conjI, rule refl, simp)
    done
qed

lemma cli_loop_signal:
  assumes "signal_at eng (calls w) = Some s"
  shows "cli_loop (Suc fuel) eng lp n w = Some (Inl (exn_of s), after_call eng w)"
  using assms by (simp add: handle_is_seed_def)

lemma cli_loop_signal_status:
  assumes "signal_at eng (calls w) = None" "\<not> is_seed (status_at eng (calls w))"
    "signal_at eng (Suc (calls w)) = Some s"
  shows "cli_loop (Suc fuel) eng lp n w = Some (Inl (exn_of s), after_call eng (after_call eng w))"
  using assms by (simp add: quiet_is_seed handle_status_def)

lemma cli_loop_signal_sleep:
  assumes "signal_at eng (calls w) = None" "\<not> is_seed (status_at eng (calls w))"
    "signal_at eng (Suc (calls w)) = None" "signal_at eng (Suc (Suc (calls w))) = Some s"
  shows "\<exists>w3 evs. cli_loop (Suc fuel) eng lp n w = Some (Inl (exn_of s), w3)
             \<and> calls w3 = calls w + 3 \<and> torrents w3 = torrents w
             \<and> events w3 = events w @ evs \<and> list_all is_bar evs"
  using assms
  by (cases "progress (status_at eng (Suc (calls w))) * 100 > lp")
     (simp_all add: quiet_is_seed quiet_status time_sleep_def)

declare cli_loop.simps(2) [simp del]

lemma cli_loop_interrupted:
  assumes sig: "signal_at eng c = Some s"
  shows "\<forall>n. calls w \<le> n \<and> n < c \<longrightarrow> signal_at eng n = None \<Longrightarrow>
         \<forall>j. calls w + 3 * j < c \<longrightarrow> \<not> is_seed (status_at eng (calls w + 3 * j)) \<Longrightarrow>
         calls w \<le> c \<Longrightarrow> c - calls w < 3 * fuel \<Longrightarrow>
         \<exists>w' evs. cli_loop fuel eng lp n w = Some (Inl (exn_of s), w')
             \<and> calls w' = Suc c \<and> torrents w' = torrents w
             \<and> events w' = events w @ evs \<and> list_all is_bar evs"
proof (induction fuel arbitrary: w lp n)
  case 0
  then show ?case by simp
next
  case (Suc fuel)
  consider "c = calls w" | "c = calls w + 1" | "c = calls w + 2" | "calls w + 3 \<le> c"
    using Suc.prems(3) by linarith
  then show ?case
  proof cases
    case 1
    then show ?thesis using sig by (simp add: cli_loop_signal)
  next
    case 2
    have "signal_at eng (calls w) = None" using Suc.prems(1) 2 by simp
    moreover have "\<not> is_seed (status_at eng (calls w))"
      using Suc.prems(2) [rule_format, of 0] 2 by simp
    moreover have "signal_at eng (Suc (calls w)) = Some s" using sig 2 by simp
    ultimately show ?thesis using 2 by (simp add: cli_loop_signal_status)
  next
    case 3
    have a: "signal_at eng (calls w) = None" "signal_at eng (Suc (calls w)) = None"
      using Suc.prems(1) 3 by simp_all
    have b: "\<not> is_seed (status_at eng (calls w))"
      using Suc.prems(2) [rule_format, of 0] 3 by simp
    have c: "signal_at eng (Suc (Suc (calls w))) = Some s" using sig 3 by simp
    from cli_loop_signal_sleep [OF a(1) b a(2) c, of fuel lp n] 3 show ?thesis
      by auto
  next
    case 4
    have a: "signal_at eng (calls w) = None" "signal_at eng (Suc (calls w)) = None"
      "signal_at eng (Suc (Suc (calls w))) = None"
      using Suc.prems(1) 4 by simp_all
    have b: "\<not> is_seed (status_at eng (calls w))"
      using Suc.prems(2) [rule_format, of 0] 4 by simp
    from cli_loop_step [OF a(1) b a(2) a(3), of fuel lp n] obtain lp' n' w3 evs where
      step: "cli_loop (Suc fuel) eng lp n w = cli_loop fuel eng lp' n' w3"
      and w3: "calls w3 = calls w + 3" "torrents w3 = torrents w"
        "events w3 = events w @ evs" "list_all is_bar evs"
      by blast
    have p1: "\<forall>n. calls w3 \<le> n \<and> n < c \<longrightarrow> signal_at eng n = None"
      using Suc.prems(1) w3(1) by simp
    have p2: "\<forall>j. calls w3 + 3 * j < c \<longrightarrow> \<not> is_seed (status_at eng (calls w3 + 3 * j))"
    proof (intro allI impI)
      fix j assume "calls w3 + 3 * j < c"
      then have "calls w + 3 * Suc j < c" using w3(1) by simp
      then have "\<not> is_seed (status_at eng (calls w + 3 * Suc j))" using Suc.prems(2) by blast
      moreover have "calls w3 + 3 * j = calls w + 3 * Suc j" using w3(1) by simp
      ultimately show "\<not> is_seed (status_at eng (calls w3 + 3 * j))" by metis
    qed
    have p3: "calls w3 \<le> c" using 4 w3(1) by simp
    have p4: "c - calls w3 < 3 * fuel" using Suc.prems(4) 4 w3(1) by simp
    from Suc.IH [OF p1 p2 p3 p4, of lp' n'] obtain w' evs' where
      r: "cli_loop fuel eng lp' n' w3 = Some (Inl (exn_of s), w')" "calls w' = Suc c"
        "torrents w' = torrents w3" "events w' = events w3 @ evs'" "list_all is_bar evs'"
      by blast
    show ?thesis
      unfolding step using r w3
      by (intro exI [of _ w'] exI [of _ "evs @ evs'"]) simp
  qed
qed

subsection \<open>Sample engines\<close>

lemma dead_engine_simps [simp]:
  "parse_magnet_uri dead_engine = demo_parse" "status_at dead_engine n = demo_status False False"
  "signal_at dead_engine n = None" "duration_at dead_engine n = 0"
  by (simp_all add: dead_engine_def)

lemma sluggish_engine_simps [simp]:
  "parse_magnet_uri sluggish_engine = demo_parse"
  "status_at sluggish_engine n = demo_status False False"
  "signal_at sluggish_engine n = None"
  by (simp_all add: sluggish_engine_def)

lemma demo_engine_simps [simp]:
  "parse_magnet_uri demo_engine = demo_parse" "status_at demo_engine n = demo_status True (7 \<le> n)"
  "signal_at demo_engine n = None" "duration_at demo_engine n = 0"
  "get_torrent_info demo_engine = demo_info"
  by (simp_all add: demo_engine_def)

lemma late_engine_simps [simp]:
  "parse_magnet_uri late_engine = demo_parse" "status_at late_engine n = demo_status (180 \<le> n) True"
  "signal_at late_engine n = None" "duration_at late_engine n = 1 / 1000"
  "get_torrent_info late_engine = demo_info"
  by (simp_all add: late_engine_def)

lemma interrupted_engine_simps [simp]:
  "parse_magnet_uri interrupted_engine = demo_parse"
  "status_at interrupted_engine n = demo_status True (7 \<le> n)"
  "signal_at interrupted_engine n = (if n = 3 then Some Interrupt else None)"
  "duration_at interrupted_engine n = 0"
  "get_torrent_info interrupted_engine = demo_info"
  by (simp_all add: interrupted_engine_def demo_engine_def)

lemma twice_interrupted_engine_simps [simp]:
  "parse_magnet_uri twice_interrupted_engine = demo_parse"
  "status_at twice_interrupted_engine n = demo_status True (7 \<le> n)"
  "signal_at twice_interrupted_engine n = (if n = 3 \<or> n = 4 then Some Interrupt else None)"
  "duration_at twice_interrupted_engine n = 0"
  "get_torrent_info twice_interrupted_engine = demo_info"
  by (simp_all add: twice_interrupted_engine_def demo_engine_def)

lemma faulty_engine_simps [simp]:
  "parse_magnet_uri faulty_engine = demo_parse"
  "status_at faulty_engine n = demo_status True (7 \<le> n)"
  "signal_at faulty_engine n = (if n = 2 then Some Fault else None)"
  "duration_at faulty_engine n = 0"
  "get_torrent_info faulty_engine = demo_info"
  by (simp_all add: faulty_engine_def demo_engine_def)

lemma demo_status_simps [simp]:
  "has_metadata (demo_status m s) = m" "is_seed (demo_status m s) = s"
  "progress (demo_status m s) = (if s then 1 else 1 / 2)"
  by (simp_all add: demo_status_def)

lemma demo_parse_link [simp]: "demo_parse demo_link = Some ''c0ffee''"
  by (simp add: demo_parse_def demo_link_def)

lemma demo_parse_nonsense [simp]: "demo_parse ''nonsense'' = None"
  by (simp add: demo_parse_def)

lemma demo_argv [simp]:
  "[a, b] ! 1 = b" "2 \<le> length [a, b]"
  by simp_all

lemmas download_loop_numeral =
  download_loop.simps(2) [of "pred_numeral k", folded numeral_eq_Suc] for k

lemmas cli_loop_numeral =
  cli_loop.simps(2) [of "pred_numeral k", folded numeral_eq_Suc] for k

lemmas run_simps =
  download_wait_ready cli_wait_ready get_info_wait_ready download_loop_numeral cli_loop_numeral
  download_loop.simps(2) cli_loop.simps(2)
  handle_status_def handle_is_seed_def time_sleep_def after_call_def
  add_torrent_def remove_torrent_def new_session_def emit_def demo_world_def

subsection \<open>The metadata timeout\<close>

text \<open>
  Claim C2, as the code has it. The wait makes at most 184 engine calls: 61 cycles of
  two status polls and a sleep, and one more poll. When the link is accepted and none of
  the 184 calls that follow the adding of the torrent reports the metadata or is cut short
  by an interrupt or a fault, \<^verbatim>\<open>download\<close> raises \<^verbatim>\<open>TimeoutError\<close>, and
  \<^verbatim>\<open>download_torrent\<close> prints its timeout message and returns. In both, the only
  event after the session exists is the added torrent, whatever the fuel of the download
  loop: the loop is not entered, no metadata or progress callback is made and the progress
  bar is never touched.
\<close>

theorem metadata_timeout:
  assumes "parse_magnet_uri eng magnet_link = Some h"
    and "\<forall>i < 184. \<not> has_metadata (status_at eng (calls w + i)) \<and> signal_at eng (calls w + i) = None"
  shows "(\<exists>w'. download fuel eng magnet_link on_progress on_metadata w = Some (Inl TimeoutError, w')
            \<and> events w' = events w @ [TorrentAdded h])
       \<and> (\<exists>w'. download_torrent fuel eng magnet_link w = Some (Inr (), w')
            \<and> events w' = events w @ [SessionCreated, TorrentAdded h])"
proof
  show "\<exists>w'. download fuel eng magnet_link on_progress on_metadata w = Some (Inl TimeoutError, w')
            \<and> events w' = events w @ [TorrentAdded h]"
    using assms(1) download_wait_timeout [of eng "add_torrent h w"] assms(2)
    by (auto simp: download_def)
next
  have "clock w = clock (add_torrent h (new_session w))" by simp
  then show "\<exists>w'. download_torrent fuel eng magnet_link w = Some (Inr (), w')
            \<and> events w' = events w @ [SessionCreated, TorrentAdded h]"
    using assms(1) cli_wait_timeout [of eng "add_torrent h (new_session w)" 0] assms(2)
    by (auto simp: download_torrent_def)
qed

theorem metadata_timeout_witness:
  "(\<exists>w'. download 0 sluggish_engine demo_link True True demo_world = Some (Inl TimeoutError, w')
         \<and> events w' = [TorrentAdded ''c0ffee''])
   \<and> (\<exists>w'. download_torrent 0 sluggish_engine demo_link demo_world = Some (Inr (), w')
         \<and> events w' = [SessionCreated, TorrentAdded ''c0ffee''])"
  using metadata_timeout [of sluggish_engine demo_link "''c0ffee''" demo_world 0 True True]
  by (simp add: demo_world_def)

text \<open>
  The 60 second bound is only checked after a poll that found no metadata. Metadata that
  first arrives at a poll made after the 60 seconds have passed is therefore accepted, and
  the download loop is entered.
\<close>

lemma late_download_run:
  "\<exists>w'. download 1 late_engine demo_link True True demo_world =
           Some (Inr \<lparr>res_name = name demo_info, res_files = collect_files demo_info\<rparr>, w')
       \<and> events w' = [TorrentAdded ''c0ffee'', OnMetadata (metadata_of demo_info ''c0ffee'')]
       \<and> calls w' = 182 \<and> clock w' = 60 + 182 / 1000"
proof -
  let ?w1 = "add_torrent ''c0ffee'' demo_world"
  have z: "\<forall>n. duration_at late_engine n = 1 / 1000" and d: "(0 :: pynum) \<le> 1 / 1000"
    and q: "\<forall>n. signal_at late_engine n = None"
    by simp_all
  have c1: "calls ?w1 = 0" "clock ?w1 = 0" by (simp_all add: demo_world_def)
  have a: "\<forall>j<60. \<not> has_metadata (status_at late_engine (calls ?w1 + 3 * j))"
    unfolding c1 by auto
  have b: "has_metadata (status_at late_engine (calls ?w1 + 3 * 60))"
    unfolding c1 by simp
  have c: "clock ?w1 + of_nat 60 * (1 + 3 * (1 / 1000)) \<le> clock ?w1 + 61 + 2 * (1 / 1000)"
    by simp
  from download_wait_found [OF z d q a b c] obtain w2 where
    wait: "download_wait late_engine (clock ?w1) ?w1 = (Inr (), w2)"
    and w2: "calls w2 = 181" "clock w2 = 60 + 181 / 1000"
    unfolding c1 by auto
  have e2: "events w2 = [TorrentAdded ''c0ffee'']"
    using download_wait_frame [of late_engine "clock ?w1" ?w1] wait by (simp add: demo_world_def)
  let ?w3 = "emit [OnMetadata (metadata_of demo_info ''c0ffee'')] w2"
  have "download_loop 1 late_engine True ?w3 = Some (Inr (), after_call late_engine ?w3)"
    using download_loop_stop [of late_engine ?w3 0 True] w2 by simp
  then have "download 1 late_engine demo_link True True demo_world =
      Some (Inr \<lparr>res_name = name demo_info, res_files = collect_files demo_info\<rparr>,
            after_call late_engine ?w3)"
    using wait by (simp add: download_def)
  moreover have "events (after_call late_engine ?w3) =
      [TorrentAdded ''c0ffee'', OnMetadata (metadata_of demo_info ''c0ffee'')]"
    using e2 by simp
  moreover have "calls (after_call late_engine ?w3) = 182"
    using w2 by simp
  moreover have "clock (after_call late_engine ?w3) = 60 + 182 / 1000"
    using w2 by (simp add: after_call_def)
  ultimately show ?thesis by blast
qed

theorem late_metadata_counterexample:
  "map_option (\<lambda>(r, w). (isl r, events w, calls w, clock w))
      (download 1 late_engine demo_link True True demo_world) =
     Some (False, [TorrentAdded ''c0ffee'', OnMetadata (metadata_of demo_info ''c0ffee'')],
           182, 60 + 182 / 1000)
   \<and> list_all (\<lambda>n. \<not> has_metadata (status_at late_engine n)) [0..<180]"
proof -
  from late_download_run obtain w' where
    "download 1 late_engine demo_link True True demo_world =
           Some (Inr \<lparr>res_name = name demo_info, res_files = collect_files demo_info\<rparr>, w')"
    "events w' = [TorrentAdded ''c0ffee'', OnMetadata (metadata_of demo_info ''c0ffee'')]"
    "calls w' = 182" "clock w' = 60 + 182 / 1000"
    by blast
  then show ?thesis by (simp add: list_all_iff)
qed

subsection \<open>Rejected links and \<^verbatim>\<open>get_info\<close>\<close>

text \<open>
  Claim C4, as the code has it. When the parser rejects the magnet link,
  \<^verbatim>\<open>download\<close> raises the parser's error at once and \<^verbatim>\<open>download_torrent\<close>
  returns at once; neither makes a single engine call, enters the metadata wait or adds a
  torrent. The session, however, exists by then: \<^verbatim>\<open>download_torrent\<close> has created it
  before it parses the link, and \<^verbatim>\<open>download\<close> runs on the session its object created
  when it was built.
\<close>

theorem malformed_link:
  assumes "parse_magnet_uri eng magnet_link = None"
  shows "download fuel eng magnet_link on_progress on_metadata w = Some (Inl InvalidMagnet, w)
       \<and> download_torrent fuel eng magnet_link w = Some (Inr (), new_session w)
       \<and> get_info eng magnet_link w = (Inl InvalidMagnet, w)"
  using assms by (simp add: download_def download_torrent_def get_info_def)

theorem malformed_link_witness:
  "download 1 dead_engine ''nonsense'' True True demo_world = Some (Inl InvalidMagnet, demo_world)
   \<and> download_torrent 1 dead_engine ''nonsense'' demo_world = Some (Inr (), new_session demo_world)
   \<and> get_info dead_engine ''nonsense'' demo_world = (Inl InvalidMagnet, demo_world)"
  using malformed_link [of dead_engine "''nonsense''" 1 True True demo_world] by simp

text \<open>
  A rejected link does not keep the session from being created: both programs create it
  first, and the script of \<^verbatim>\<open>downloader.py\<close> then pauses it in its error handler.
\<close>

theorem malformed_link_session_counterexample:
  "download_torrent 1 dead_engine ''nonsense'' demo_world =
     Some (Inr (), \<lparr>calls = 0, clock = 0, torrents = [], events = [SessionCreated]\<rparr>)
   \<and> downloader_main 1 dead_engine [''downloader.py'', ''nonsense''] demo_world =
     Some (Exit 1, \<lparr>calls = 1, clock = 1, torrents = [], events = [SessionCreated, SessionPaused]\<rparr>)"
  by (simp add: download_torrent_def downloader_main_def download_def init_downloader_def shutdown_def
      time_sleep_def after_call_def new_session_def emit_def demo_world_def)

text \<open>
  Claim C9, as the code has it. \<^verbatim>\<open>get_info\<close> adds the torrent, waits for the
  metadata and, before it returns normally, removes the torrent of the handle that
  \<^verbatim>\<open>add_torrent\<close> gave it: the torrent is then not in the session, and when it was
  not in the session before the call either, the session holds the same torrents after the
  call as before. When the call raises \<^verbatim>\<open>TimeoutError\<close> nothing has been removed: the
  torrent is in the session, as its last torrent when the call added it.
\<close>

theorem get_info_session:
  assumes "parse_magnet_uri eng magnet_link = Some h"
    and "get_info eng magnet_link w = (r, w')"
  shows "((\<exists>info. r = Inr info) \<longrightarrow>
            h \<notin> set (torrents w')
            \<and> (h \<notin> set (torrents w) \<longrightarrow> torrents w' = torrents w)
            \<and> events w' = events w @ [TorrentAdded h, TorrentRemoved h])
       \<and> (r = Inl TimeoutError \<longrightarrow>
            h \<in> set (torrents w')
            \<and> (h \<notin> set (torrents w) \<longrightarrow> torrents w' = torrents w @ [h])
            \<and> events w' = events w @ [TorrentAdded h])"
proof -
  let ?w1 = "add_torrent h w"
  obtain r2 w2 where wait: "get_info_wait eng (clock ?w1) ?w1 = (r2, w2)"
    by fastforce
  have frame: "events w2 = events ?w1" "torrents w2 = torrents ?w1"
    using get_info_wait_frame [of eng "clock ?w1" ?w1] wait by simp_all
  have t1: "torrents ?w1 = (if h \<in> set (torrents w) then torrents w else torrents w @ [h])"
    by (simp add: add_torrent_def emit_def)
  have t2: "removeAll h (torrents ?w1) = removeAll h (torrents w)"
    unfolding t1 by simp
  show ?thesis
    using assms wait frame t1 t2
    by (auto simp: get_info_def remove_torrent_def emit_def split: sum.splits)
qed

text \<open>
  A completed download leaves its torrent in the session. A call of \<^verbatim>\<open>get_info\<close> for
  the same link then gets the handle of that torrent and removes it: the session held one
  torrent before the call and holds none after it.
\<close>

lemma demo_run:
  "download 3 demo_engine demo_link True False demo_world =
     Some (Inr \<lparr>res_name = name demo_info, res_files = collect_files demo_info\<rparr>,
           \<lparr>calls = 8, clock = 2, torrents = [''c0ffee''],
            events = [TorrentAdded ''c0ffee'',
                      OnProgress (progress_info_of (demo_status True False)),
                      OnProgress (progress_info_of (demo_status True False))]\<rparr>)"
  by (simp add: download_def run_simps)

lemma demo_get_info_again:
  "get_info demo_engine demo_link
      \<lparr>calls = 8, clock = 2, torrents = [''c0ffee''],
       events = [TorrentAdded ''c0ffee'',
                 OnProgress (progress_info_of (demo_status True False)),
                 OnProgress (progress_info_of (demo_status True False))]\<rparr> =
     (Inr \<lparr>sum_name = name demo_info, sum_files = collect_files demo_info,
           sum_total_size = total_size demo_info, sum_info_hash = ''c0ffee''\<rparr>,
      \<lparr>calls = 9, clock = 2, torrents = [],
       events = [TorrentAdded ''c0ffee'',
                 OnProgress (progress_info_of (demo_status True False)),
                 OnProgress (progress_info_of (demo_status True False)),
                 TorrentAdded ''c0ffee'', TorrentRemoved ''c0ffee'']\<rparr>)"
  by (simp add: get_info_def run_simps)

theorem get_info_after_download_counterexample:
  "map_option (\<lambda>(r, w). (isl r, torrents w, isl (fst (get_info demo_engine demo_link w)),
                          torrents (snd (get_info demo_engine demo_link w))))
      (download 3 demo_engine demo_link True False demo_world) =
     Some (False, [''c0ffee''], False, [])"
  by (simp add: demo_run demo_get_info_again)

theorem get_info_session_witness:
  "\<not> isl (fst (get_info demo_engine demo_link demo_world))
   \<and> torrents (snd (get_info demo_engine demo_link demo_world)) = []
   \<and> fst (get_info dead_engine demo_link demo_world) = Inl TimeoutError
   \<and> torrents (snd (get_info dead_engine demo_link demo_world)) = [''c0ffee'']"
proof -
  have a: "\<exists>info. fst (get_info demo_engine demo_link demo_world) = Inr info"
    by (simp add: get_info_def run_simps)
  obtain w2 where "get_info_wait dead_engine (clock (add_torrent ''c0ffee'' demo_world))
      (add_torrent ''c0ffee'' demo_world) = (Inl TimeoutError, w2)"
    using get_info_wait_timeout [of dead_engine "add_torrent ''c0ffee'' demo_world"] by auto
  then have b: "fst (get_info dead_engine demo_link demo_world) = Inl TimeoutError"
    by (simp add: get_info_def)
  have p1: "parse_magnet_uri demo_engine demo_link = Some ''c0ffee''" by simp
  have p2: "parse_magnet_uri dead_engine demo_link = Some ''c0ffee''" by simp
  show ?thesis
    using get_info_session [OF p1 surjective_pairing] get_info_session [OF p2 surjective_pairing] a b
    by (auto simp: demo_world_def)
qed

subsection \<open>One callback in each cycle\<close>

text \<open>
  Claim C6. With a callback supplied and no interrupt or fault, when the engine first
  reports the seed state at the seed query of cycle \<open>k\<close> (counting from 0), the download
  loop returns, it has invoked \<^verbatim>\<open>on_progress\<close> exactly once in each of the \<open>k\<close>
  cycles before, in order, and its last engine call is that seed query: no further cycle
  and no further callback.
\<close>

theorem one_callback_per_cycle:
  assumes "\<forall>n. signal_at eng n = None"
    and "\<forall>j<k. \<not> is_seed (status_at eng (calls w + 3 * j))"
    and "is_seed (status_at eng (calls w + 3 * k))"
    and "k < fuel"
  shows "\<exists>w'. download_loop fuel eng True w = Some (Inr (), w')
             \<and> events w' = events w @ callbacks eng (calls w) k
             \<and> length (callbacks eng (calls w) k) = k
             \<and> calls w' = calls w + 3 * k + 1"
  using download_loop_cycles [OF assms, of True] by (auto simp: callbacks_def)

theorem one_callback_per_cycle_witness:
  "\<exists>w'. download_loop 3 demo_engine True (demo_world\<lparr>calls := 1\<rparr>) = Some (Inr (), w')
        \<and> events w' = [OnProgress (progress_info_of (demo_status True False)),
                        OnProgress (progress_info_of (demo_status True False))]
        \<and> calls w' = 8"
  using one_callback_per_cycle [of demo_engine 2 "demo_world\<lparr>calls := 1\<rparr>" 3]
  by (simp add: callbacks_def demo_world_def upt_rec)

subsection \<open>Progress values\<close>

lemma progress_values_append:
  "progress_values (xs @ ys) = progress_values xs @ progress_values ys"
  by (induction xs rule: progress_values.induct) simp_all

lemma progress_values_callbacks:
  "progress_values (map (\<lambda>n. OnProgress (progress_info_of (status_at eng (f n)))) ns) =
     map (\<lambda>n. progress (status_at eng (f n)) * 100) ns"
  by (induction ns) (simp_all add: progress_info_of_def)

lemma download_cases:
  assumes "download fuel eng magnet_link on_progress on_metadata w = Some (r, w')"
    and "parse_magnet_uri eng magnet_link = Some h"
  shows "torrents w' = torrents (add_torrent h w) \<and>
         (\<exists>ms ns. events w' = events w @ [TorrentAdded h] @ ms
                    @ map (\<lambda>n. OnProgress (progress_info_of (status_at eng n))) ns
                  \<and> progress_values ms = [])"
proof -
  let ?w1 = "add_torrent h w"
  obtain r2 w2 where wait: "download_wait eng (clock ?w1) ?w1 = (r2, w2)"
    by fastforce
  have e2: "events w2 = events w @ [TorrentAdded h]" and t2: "torrents w2 = torrents ?w1"
    using download_wait_frame [of eng "clock ?w1" ?w1] wait by simp_all
  show ?thesis
  proof (cases r2)
    case (Inl e)
    with assms wait have "w' = w2" by (simp add: download_def)
    with e2 t2 show ?thesis
      by (auto intro!: exI [of _ "[]"])
  next
    case (Inr u)
    let ?ms = "if on_metadata then [OnMetadata (metadata_of (get_torrent_info eng) h)] else []"
    let ?w3 = "if on_metadata then emit [OnMetadata (metadata_of (get_torrent_info eng) h)] w2 else w2"
    have e3: "events ?w3 = events w @ [TorrentAdded h] @ ?ms" and t3: "torrents ?w3 = torrents ?w1"
      using e2 t2 by simp_all
    from assms wait Inr obtain r4 where loop: "download_loop fuel eng on_progress ?w3 = Some (r4, w')"
      by (simp add: download_def split: option.splits sum.splits prod.splits)
    from download_loop_events [OF loop] obtain ns where
      "torrents w' = torrents ?w3"
      "events w' = events ?w3 @ map (\<lambda>n. OnProgress (progress_info_of (status_at eng n))) ns"
      by blast
    then have "torrents w' = torrents ?w1"
      "events w' = events w @ [TorrentAdded h] @ ?ms @ map (\<lambda>n. OnProgress (progress_info_of (status_at eng n))) ns"
      using e3 t3 by simp_all
    moreover have "progress_values ?ms = []" by simp
    ultimately show ?thesis by blast
  qed
qed

text \<open>
  Claim C1, as the code has it. The \<^verbatim>\<open>'progress'\<close> entry handed to
  \<^verbatim>\<open>on_progress\<close> is a percentage: each value that a call of \<^verbatim>\<open>download\<close> has
  delivered by the time it returns or raises is 100 times the progress fraction of a
  status the engine reported, and when every engine status has its fraction in
  \<open>[0, 1]\<close>, each delivered value lies in \<open>[0, 100]\<close>.
\<close>

theorem progress_percent_range:
  assumes "\<forall>n. 0 \<le> progress (status_at eng n) \<and> progress (status_at eng n) \<le> 1"
    and "download fuel eng magnet_link on_progress on_metadata w = Some (r, w')"
  shows "\<exists>evs ns. events w' = events w @ evs
            \<and> progress_values evs = map (\<lambda>n. progress (status_at eng n) * 100) ns
            \<and> (\<forall>v \<in> set (progress_values evs). 0 \<le> v \<and> v \<le> 100)"
proof (cases "parse_magnet_uri eng magnet_link")
  case None
  with assms(2) have "events w' = events w @ []" by (simp add: download_def)
  moreover have "progress_values [] = map (\<lambda>n. progress (status_at eng n) * 100) []" by simp
  ultimately show ?thesis by force
next
  case (Some h)
  have range: "0 \<le> progress (status_at eng n) * 100 \<and> progress (status_at eng n) * 100 \<le> 100" for n
  proof -
    from assms(1) have "0 \<le> progress (status_at eng n)" "progress (status_at eng n) \<le> 1"
      by simp_all
    then show ?thesis by simp
  qed
  from download_cases [OF assms(2) Some] obtain ms ns where
    ev: "events w' = events w @ [TorrentAdded h] @ ms
           @ map (\<lambda>n. OnProgress (progress_info_of (status_at eng n))) ns"
    and ms: "progress_values ms = []"
    by blast
  let ?evs = "[TorrentAdded h] @ ms @ map (\<lambda>n. OnProgress (progress_info_of (status_at eng n))) ns"
  have pv: "progress_values ?evs = map (\<lambda>n. progress (status_at eng n) * 100) ns"
    using progress_values_callbacks [of eng "\<lambda>n. n" ns]
    by (simp add: progress_values_append ms)
  have "\<forall>v \<in> set (map (\<lambda>n. progress (status_at eng n) * 100) ns). 0 \<le> v \<and> v \<le> 100"
    using range by auto
  then have "\<forall>v \<in> set (progress_values ?evs). 0 \<le> v \<and> v \<le> 100"
    by (simp only: pv)
  with ev pv show ?thesis by blast
qed

text \<open>
  An engine fraction of one half reaches the callback as 50, which is not in \<open>[0, 1]\<close>.
\<close>

theorem progress_fraction_counterexample:
  "map_option (\<lambda>(r, w). progress_values (events w))
      (download 3 demo_engine demo_link True False demo_world) = Some [50, 50]
   \<and> progress (demo_status True False) = 1 / 2 \<and> \<not> (50 :: pynum) \<le> 1"
  by (simp add: demo_run progress_info_of_def)

theorem progress_percent_range_witness:
  "\<exists>r w' evs ns. download 3 demo_engine demo_link True False demo_world = Some (r, w')
      \<and> events w' = events demo_world @ evs
      \<and> progress_values evs = map (\<lambda>n. progress (status_at demo_engine n) * 100) ns
      \<and> (\<forall>v \<in> set (progress_values evs). 0 \<le> v \<and> v \<le> 100)"
proof -
  have h: "\<forall>n. 0 \<le> progress (status_at demo_engine n) \<and> progress (status_at demo_engine n) \<le> 1"
    by simp
  from progress_percent_range [OF h demo_run] demo_run show ?thesis
    by blast
qed

subsection \<open>Errors, interrupts and the shutdown sequence\<close>

lemma script_download_torrents:
  assumes "download fuel eng magnet_link on_progress on_metadata (init_downloader w) = Some (r, w1)"
    and "parse_magnet_uri eng magnet_link = Some h"
  shows "torrents w1 = [h]"
  using download_cases [OF assms] by (simp add: init_downloader_def add_torrent_def)

text \<open>
  \<^verbatim>\<open>shutdown\<close> pauses first; a signal in its closing sleep leaves it as an exception.
\<close>

lemma shutdown_result:
  "\<exists>w2. shutdown eng w =
           (case signal_at eng (calls w) of None \<Rightarrow> Inr () | Some s \<Rightarrow> Inl (exn_of s), w2)
       \<and> events w2 = events w @ map TorrentPaused (torrents w) @ [SessionPaused]"
  by (cases "signal_at eng (calls w)") (simp_all add: shutdown_def time_sleep_def)

text \<open>
  Claim C3, as the code has it. \<^verbatim>\<open>download\<close> shuts nothing down itself. When it
  raises an error other than a user interrupt after the link was parsed (the metadata
  timeout, an engine error in the wait or in the download loop), the script of
  \<^verbatim>\<open>downloader.py\<close> catches it and calls \<^verbatim>\<open>shutdown\<close>: the torrent is paused, then
  the session, and nothing else happens after the error. The script then ends with exit
  code 1, unless an interrupt or a fault cuts short the closing sleep of
  \<^verbatim>\<open>shutdown\<close>; in that case both pauses have been made and the script ends with that
  exception uncaught.
\<close>

theorem error_shutdown:
  assumes "2 \<le> length argv" and "parse_magnet_uri eng (argv ! 1) = Some h"
    and "download fuel eng (argv ! 1) True True (init_downloader w) = Some (Inl e, w1)"
    and "e \<noteq> KeyboardInterrupt"
  shows "\<exists>w2. downloader_main fuel eng argv w =
                Some (case signal_at eng (calls w1) of None \<Rightarrow> Exit 1
                      | Some s \<Rightarrow> Uncaught (exn_of s), w2)
             \<and> events w2 = events w1 @ [TorrentPaused h, SessionPaused]"
proof -
  have t: "torrents w1 = [h]"
    using script_download_torrents [OF assms(3) assms(2)] .
  from shutdown_result [of eng w1] obtain w2 where
    "shutdown eng w1 =
       (case signal_at eng (calls w1) of None \<Rightarrow> Inr () | Some s \<Rightarrow> Inl (exn_of s), w2)"
    "events w2 = events w1 @ map TorrentPaused (torrents w1) @ [SessionPaused]"
    by blast
  then show ?thesis
    using assms t
    by (cases "signal_at eng (calls w1)") (simp_all add: downloader_main_def)
qed

lemma sluggish_download_run:
  "\<exists>w1. download 0 sluggish_engine demo_link True True (init_downloader demo_world) =
           Some (Inl TimeoutError, w1)
       \<and> events w1 = [SessionCreated, TorrentAdded ''c0ffee'']"
proof -
  let ?w = "add_torrent ''c0ffee'' (init_downloader demo_world)"
  have "\<forall>i < 184. \<not> has_metadata (status_at sluggish_engine (calls ?w + i))
           \<and> signal_at sluggish_engine (calls ?w + i) = None"
    by simp
  from download_wait_timeout [OF this] obtain w1 where
    "download_wait sluggish_engine (clock ?w) ?w = (Inl TimeoutError, w1)" "events w1 = events ?w"
    by blast
  then show ?thesis
    by (simp add: download_def init_downloader_def demo_world_def)
qed

lemma sluggish_cli_run:
  "\<exists>w1. cli_main 0 sluggish_engine [''cli_downloader.py'', demo_link] demo_world = Some (Exit 0, w1)
       \<and> events w1 = [SessionCreated, TorrentAdded ''c0ffee'']"
proof -
  let ?w = "add_torrent ''c0ffee'' (new_session demo_world)"
  have "\<forall>i < 184. \<not> has_metadata (status_at sluggish_engine (calls ?w + i))
           \<and> signal_at sluggish_engine (calls ?w + i) = None"
    by simp
  from cli_wait_timeout [OF this, of 0] obtain w1 where
    "cli_wait sluggish_engine (clock ?w) 0 ?w = (Inr False, w1)" "events w1 = events ?w"
    by blast
  then show ?thesis
    by (simp add: cli_main_def download_torrent_def demo_world_def)
qed

lemma faulty_download_run:
  "download 3 faulty_engine demo_link True True (init_downloader demo_world) =
     Some (Inl EngineError,
           \<lparr>calls = 3, clock = 0, torrents = [''c0ffee''],
            events = [SessionCreated, TorrentAdded ''c0ffee'',
                      OnMetadata (metadata_of demo_info ''c0ffee'')]\<rparr>)"
  by (simp add: download_def init_downloader_def run_simps)

text \<open>
  On a metadata timeout \<^verbatim>\<open>download\<close> hands the exception to its caller, and
  \<^verbatim>\<open>download_torrent\<close> returns, with nothing paused.
\<close>

theorem error_without_shutdown_counterexample:
  "map_option (\<lambda>(r, w). (r, filter is_pause (events w)))
      (download 0 sluggish_engine demo_link True True (init_downloader demo_world)) =
     Some (Inl TimeoutError, [])
   \<and> map_option (\<lambda>(r, w). (r, filter is_pause (events w)))
      (cli_main 0 sluggish_engine [''cli_downloader.py'', demo_link] demo_world) =
     Some (Exit 0, [])"
proof -
  from sluggish_download_run obtain w1 where
    "download 0 sluggish_engine demo_link True True (init_downloader demo_world) =
           Some (Inl TimeoutError, w1)"
    "events w1 = [SessionCreated, TorrentAdded ''c0ffee'']"
    by blast
  moreover from sluggish_cli_run obtain w2 where
    "cli_main 0 sluggish_engine [''cli_downloader.py'', demo_link] demo_world = Some (Exit 0, w2)"
    "events w2 = [SessionCreated, TorrentAdded ''c0ffee'']"
    by blast
  ultimately show ?thesis by simp
qed

theorem error_shutdown_witness:
  "(\<exists>w2. downloader_main 0 sluggish_engine [''downloader.py'', demo_link] demo_world =
            Some (Exit 1, w2)
       \<and> events w2 = [SessionCreated, TorrentAdded ''c0ffee'',
                       TorrentPaused ''c0ffee'', SessionPaused])
   \<and> (\<exists>w2. downloader_main 3 faulty_engine [''downloader.py'', demo_link] demo_world =
            Some (Exit 1, w2)
       \<and> events w2 = [SessionCreated, TorrentAdded ''c0ffee'',
                       OnMetadata (metadata_of demo_info ''c0ffee''),
                       TorrentPaused ''c0ffee'', SessionPaused])"
proof -
  from sluggish_download_run obtain w1 where
    run: "download 0 sluggish_engine ([''downloader.py'', demo_link] ! 1) True True
            (init_downloader demo_world) = Some (Inl TimeoutError, w1)"
    and ev: "events w1 = [SessionCreated, TorrentAdded ''c0ffee'']"
    by auto
  have p1: "parse_magnet_uri sluggish_engine ([''downloader.py'', demo_link] ! 1) = Some ''c0ffee''"
    and p2: "parse_magnet_uri faulty_engine ([''downloader.py'', demo_link] ! 1) = Some ''c0ffee''"
    and l: "2 \<le> length [''downloader.py'', demo_link]"
    by simp_all
  have run2: "download 3 faulty_engine ([''downloader.py'', demo_link] ! 1) True True
      (init_downloader demo_world) =
     Some (Inl EngineError,
           \<lparr>calls = 3, clock = 0, torrents = [''c0ffee''],
            events = [SessionCreated, TorrentAdded ''c0ffee'',
                      OnMetadata (metadata_of demo_info ''c0ffee'')]\<rparr>)"
    using faulty_download_run by simp
  show ?thesis
    using error_shutdown [OF l p1 run] error_shutdown [OF l p2 run2] ev
    by simp
qed

text \<open>
  Claim C5, as the code has it. Let the download loop start at call \<open>c0\<close> and let a
  user interrupt arrive at call \<open>c\<close> of the loop, the first signal since the loop began
  and before the engine has reported the seed state at a seed query.

  In \<^verbatim>\<open>downloader.py\<close>, \<^verbatim>\<open>download\<close> then raises \<^verbatim>\<open>KeyboardInterrupt\<close>; the
  callbacks delivered are those made before the interrupted call, the script pauses the
  torrent and then the session and nothing else, and it ends with exit code 0 unless a
  further signal cuts short the closing sleep of \<^verbatim>\<open>shutdown\<close>, in which case it
  ends with that exception uncaught.

  In \<^verbatim>\<open>cli_downloader.py\<close> the loop has only updated the progress bar; the handler
  closes the bar, pauses the torrent and the session, the \<^verbatim>\<open>finally\<close> clause pauses the
  session once more, and the program ends with exit code 0.
\<close>

theorem interrupt_shutdown:
  assumes "2 \<le> length argv" and "parse_magnet_uri eng (argv ! 1) = Some h"
    and "signal_at eng c = Some Interrupt"
    and "\<forall>n. c0 \<le> n \<and> n < c \<longrightarrow> signal_at eng n = None"
    and "\<forall>j. c0 + 3 * j < c \<longrightarrow> \<not> is_seed (status_at eng (c0 + 3 * j))"
    and "c0 \<le> c" and "c - c0 < 3 * fuel"
  shows "(download_wait eng (clock w) (add_torrent h (init_downloader w)) = (Inr (), w2)
            \<and> calls w2 = c0
          \<longrightarrow> (\<exists>w3 w4. download fuel eng (argv ! 1) True True (init_downloader w) =
                          Some (Inl KeyboardInterrupt, w3)
                  \<and> events w3 = events w2 @ [OnMetadata (metadata_of (get_torrent_info eng) h)]
                                 @ callbacks eng c0 ((c - c0 + 1) div 3)
                  \<and> downloader_main fuel eng argv w =
                      Some (case signal_at eng (Suc c) of None \<Rightarrow> Exit 0
                            | Some s \<Rightarrow> Uncaught (exn_of s), w4)
                  \<and> events w4 = events w3 @ [TorrentPaused h, SessionPaused]))
       \<and> (cli_wait eng (clock w) 0 (add_torrent h (new_session w)) = (Inr True, w2)
            \<and> calls w2 = c0
          \<longrightarrow> (\<exists>w3 evs w4. cli_loop fuel eng 0 0 w2 = Some (Inl KeyboardInterrupt, w3)
                  \<and> events w3 = events w2 @ evs \<and> list_all is_bar evs
                  \<and> cli_main fuel eng argv w = Some (Exit 0, w4)
                  \<and> events w4 = events w3 @ [PbarClose, TorrentPaused h, SessionPaused, SessionPaused]))"
proof (intro conjI impI)
  assume a: "download_wait eng (clock w) (add_torrent h (init_downloader w)) = (Inr (), w2)
            \<and> calls w2 = c0"
  let ?w2 = "emit [OnMetadata (metadata_of (get_torrent_info eng) h)] w2"
  have c2: "calls ?w2 = c0" using a by simp
  have p1: "\<forall>n. calls ?w2 \<le> n \<and> n < c \<longrightarrow> signal_at eng n = None"
    unfolding c2 using assms(4) .
  have p2: "\<forall>j. calls ?w2 + 3 * j < c \<longrightarrow> \<not> is_seed (status_at eng (calls ?w2 + 3 * j))"
    unfolding c2 using assms(5) .
  have p3: "calls ?w2 \<le> c" "c - calls ?w2 < 3 * fuel"
    unfolding c2 using assms(6,7) by simp_all
  from download_loop_interrupted [OF assms(3) p1 p2 p3, of True] obtain w3 where
    loop: "download_loop fuel eng True ?w2 = Some (Inl KeyboardInterrupt, w3)"
    and w3: "calls w3 = Suc c"
      "events w3 = events w2 @ [OnMetadata (metadata_of (get_torrent_info eng) h)]
                   @ callbacks eng c0 ((c - c0 + 1) div 3)"
    unfolding c2 by auto
  have d: "download fuel eng (argv ! 1) True True (init_downloader w) = Some (Inl KeyboardInterrupt, w3)"
    using assms(2) a loop by (simp add: download_def init_downloader_def)
  have t: "torrents w3 = [h]"
    using script_download_torrents [OF d assms(2)] .
  from shutdown_result [of eng w3] obtain w4 where
    "shutdown eng w3 =
       (case signal_at eng (Suc c) of None \<Rightarrow> Inr () | Some s \<Rightarrow> Inl (exn_of s), w4)"
    "events w4 = events w3 @ map TorrentPaused (torrents w3) @ [SessionPaused]"
    unfolding w3(1) by blast
  then have "downloader_main fuel eng argv w =
      Some (case signal_at eng (Suc c) of None \<Rightarrow> Exit 0 | Some s \<Rightarrow> Uncaught (exn_of s), w4)
      \<and> events w4 = events w3 @ [TorrentPaused h, SessionPaused]"
    using assms(1) d t
    by (cases "signal_at eng (Suc c)") (simp_all add: downloader_main_def)
  with d w3(2) show "\<exists>w3 w4. download fuel eng (argv ! 1) True True (init_downloader w) =
                          Some (Inl KeyboardInterrupt, w3)
                  \<and> events w3 = events w2 @ [OnMetadata (metadata_of (get_torrent_info eng) h)]
                                 @ callbacks eng c0 ((c - c0 + 1) div 3)
                  \<and> downloader_main fuel eng argv w =
                      Some (case signal_at eng (Suc c) of None \<Rightarrow> Exit 0
                            | Some s \<Rightarrow> Uncaught (exn_of s), w4)
                  \<and> events w4 = events w3 @ [TorrentPaused h, SessionPaused]"
    by blast
next
  assume a: "cli_wait eng (clock w) 0 (add_torrent h (new_session w)) = (Inr True, w2)
            \<and> calls w2 = c0"
  have p1: "\<forall>n. calls w2 \<le> n \<and> n < c \<longrightarrow> signal_at eng n = None"
    using assms(4) a by simp
  have p2: "\<forall>j. calls w2 + 3 * j < c \<longrightarrow> \<not> is_seed (status_at eng (calls w2 + 3 * j))"
    using assms(5) a by simp
  have p3: "calls w2 \<le> c" "c - calls w2 < 3 * fuel"
    using assms(6,7) a by simp_all
  from cli_loop_interrupted [OF assms(3) p1 p2 p3, of 0 0] obtain w3 evs where
    loop: "cli_loop fuel eng 0 0 w2 = Some (Inl KeyboardInterrupt, w3)"
    and w3: "events w3 = events w2 @ evs" "list_all is_bar evs"
    by auto
  let ?w4 = "emit [PbarClose, TorrentPaused h, SessionPaused, SessionPaused] w3"
  have "cli_main fuel eng argv w = Some (Exit 0, ?w4)"
    using assms(1,2) a loop by (simp add: cli_main_def download_torrent_def)
  moreover have "events ?w4 = events w3 @ [PbarClose, TorrentPaused h, SessionPaused, SessionPaused]"
    by simp
  ultimately show "\<exists>w3 evs w4. cli_loop fuel eng 0 0 w2 = Some (Inl KeyboardInterrupt, w3)
                  \<and> events w3 = events w2 @ evs \<and> list_all is_bar evs
                  \<and> cli_main fuel eng argv w = Some (Exit 0, w4)
                  \<and> events w4 = events w3 @ [PbarClose, TorrentPaused h, SessionPaused, SessionPaused]"
    using loop w3 by blast
qed

text \<open>
  A second interrupt during the closing sleep of \<^verbatim>\<open>shutdown\<close>: the torrent and the
  session have been paused, and the script ends with the exception, not with exit code 0.
\<close>

theorem second_interrupt_counterexample:
  "downloader_main 3 twice_interrupted_engine [''downloader.py'', demo_link] demo_world =
     Some (Uncaught KeyboardInterrupt,
           \<lparr>calls = 5, clock = 0, torrents = [''c0ffee''],
            events = [SessionCreated, TorrentAdded ''c0ffee'',
                      OnMetadata (metadata_of demo_info ''c0ffee''),
                      OnProgress (progress_info_of (demo_status True False)),
                      TorrentPaused ''c0ffee'', SessionPaused]\<rparr>)"
  by (simp add: downloader_main_def download_def init_downloader_def shutdown_def run_simps)

theorem interrupt_shutdown_witness:
  "(\<exists>w4. downloader_main 3 interrupted_engine [''downloader.py'', demo_link] demo_world =
            Some (Exit 0, w4)
       \<and> events w4 = [SessionCreated, TorrentAdded ''c0ffee'',
                       OnMetadata (metadata_of demo_info ''c0ffee''),
                       OnProgress (progress_info_of (demo_status True False)),
                       TorrentPaused ''c0ffee'', SessionPaused])
   \<and> (\<exists>w4. cli_main 3 interrupted_engine [''cli_downloader.py'', demo_link] demo_world =
            Some (Exit 0, w4)
       \<and> filter (\<lambda>ev. \<not> is_bar ev) (events w4) =
           [SessionCreated, TorrentAdded ''c0ffee'', PbarClose,
            TorrentPaused ''c0ffee'', SessionPaused, SessionPaused])"
proof -
  let ?w2 = "\<lparr>calls = Suc 0, clock = 0, torrents = [''c0ffee''],
              events = [SessionCreated, TorrentAdded ''c0ffee'']\<rparr>"
  have s: "signal_at interrupted_engine 3 = Some Interrupt"
    and q: "\<forall>n. 1 \<le> n \<and> n < 3 \<longrightarrow> signal_at interrupted_engine n = None"
    and ns: "\<forall>j. 1 + 3 * j < 3 \<longrightarrow> \<not> is_seed (status_at interrupted_engine (1 + 3 * j))"
    and le: "(1 :: nat) \<le> 3" "(3 :: nat) - 1 < 3 * 3"
    by simp_all
  have l1: "2 \<le> length [''downloader.py'', demo_link]"
    and l2: "2 \<le> length [''cli_downloader.py'', demo_link]"
    and p1: "parse_magnet_uri interrupted_engine ([''downloader.py'', demo_link] ! 1) = Some ''c0ffee''"
    and p2: "parse_magnet_uri interrupted_engine ([''cli_downloader.py'', demo_link] ! 1) = Some ''c0ffee''"
    by simp_all
  have wait1: "download_wait interrupted_engine (clock demo_world)
                 (add_torrent ''c0ffee'' (init_downloader demo_world)) = (Inr (), ?w2)
               \<and> calls ?w2 = 1"
    by (simp add: init_downloader_def run_simps)
  have wait2: "cli_wait interrupted_engine (clock demo_world) 0
                 (add_torrent ''c0ffee'' (new_session demo_world)) = (Inr True, ?w2)
               \<and> calls ?w2 = 1"
    by (simp add: run_simps)
  have cb: "callbacks interrupted_engine 1 ((3 - 1 + 1) div 3) =
      [OnProgress (progress_info_of (demo_status True False))]"
    by (simp add: callbacks_def)
  have f: "filter (\<lambda>ev. \<not> is_bar ev) evs = []" if "list_all is_bar evs" for evs
    using that by (induction evs) simp_all
  from interrupt_shutdown [OF l1 p1 s q ns le, of demo_world ?w2, THEN conjunct1, rule_format, OF wait1]
  have a: "\<exists>w4. downloader_main 3 interrupted_engine [''downloader.py'', demo_link] demo_world =
            Some (Exit 0, w4)
       \<and> events w4 = [SessionCreated, TorrentAdded ''c0ffee'',
                       OnMetadata (metadata_of demo_info ''c0ffee''),
                       OnProgress (progress_info_of (demo_status True False)),
                       TorrentPaused ''c0ffee'', SessionPaused]"
    unfolding cb by auto
  from interrupt_shutdown [OF l2 p2 s q ns le, of demo_world ?w2, THEN conjunct2, rule_format, OF wait2]
  have b: "\<exists>w4. cli_main 3 interrupted_engine [''cli_downloader.py'', demo_link] demo_world =
            Some (Exit 0, w4)
       \<and> filter (\<lambda>ev. \<not> is_bar ev) (events w4) =
           [SessionCreated, TorrentAdded ''c0ffee'', PbarClose,
            TorrentPaused ''c0ffee'', SessionPaused, SessionPaused]"
    by (auto simp: f)
  from a b show ?thesis by blast
qed

end
